theory Spec2Isabelle
  imports Complex_Main "HOL-Library.Multiset"
begin

section \<open>Tables of prices\<close>

text \<open>
  The notebooks work on labelled tables: a DataFrame has a row index (the dates), column
  labels (the tickers) and one row of values per index entry; a Series is a labelled
  vector. Labels keep their order and may repeat, so a Series is a list of label/value
  pairs. A price is a real number: the tables of the notebooks hold finite prices, and a
  missing value is outside this model.
\<close>

record ('r, 'c, 'v) dataframe =
  df_index :: "'r list"
  df_columns :: "'c list"
  df_values :: "'v list list"

type_synonym ('k, 'v) series = "('k \<times> 'v) list"

text \<open>An elementwise operation keeps both label lists and maps every cell.\<close>

definition df_map :: "('a \<Rightarrow> 'b) \<Rightarrow> ('r, 'c, 'a) dataframe \<Rightarrow> ('r, 'c, 'b) dataframe" where
  "df_map f d =
     \<lparr>df_index = df_index d, df_columns = df_columns d, df_values = map (map f) (df_values d)\<rparr>"

text \<open>\<^verbatim>\<open>prices > c\<close> and \<^verbatim>\<open>prices < c\<close>: a table of booleans.\<close>

definition df_gt :: "('r, 'c, real) dataframe \<Rightarrow> real \<Rightarrow> ('r, 'c, bool) dataframe" where
  "df_gt d c = df_map (\<lambda>p. c < p) d"

definition df_lt :: "('r, 'c, real) dataframe \<Rightarrow> real \<Rightarrow> ('r, 'c, bool) dataframe" where
  "df_lt d c = df_map (\<lambda>p. p < c) d"

text \<open>\<^verbatim>\<open>.astype(int)\<close> on a boolean table: True is 1 and False is 0.\<close>

definition astype_int :: "('r, 'c, bool) dataframe \<Rightarrow> ('r, 'c, int) dataframe" where
  "astype_int d = df_map (\<lambda>b. if b then 1 else 0) d"

text \<open>\<^verbatim>\<open>k * table\<close> with an integer scalar on the left.\<close>

definition df_scale :: "int \<Rightarrow> ('r, 'c, int) dataframe \<Rightarrow> ('r, 'c, int) dataframe" where
  "df_scale k d = df_map (\<lambda>x. k * x) d"

text \<open>
  \<^verbatim>\<open>a + b\<close> on two tables. When both operands carry the same labels the sum is taken cell
  by cell. For operands with different labels the library aligns them on the union of the
  labels first; that path is not modelled and is the value \<open>None\<close>.
\<close>

definition df_add ::
  "('r, 'c, int) dataframe \<Rightarrow> ('r, 'c, int) dataframe \<Rightarrow> ('r, 'c, int) dataframe option" where
  "df_add a b =
     (if df_index a = df_index b \<and> df_columns a = df_columns b
      then Some \<lparr>df_index = df_index a, df_columns = df_columns a,
                 df_values = map2 (map2 (+)) (df_values a) (df_values b)\<rparr>
      else None)"

subsection \<open>generate_positions (dtype.ipynb)\<close>

text \<open>
  \<^verbatim>\<open>
  def generate_positions(prices):
      long_thirty = 30 * (prices > 50).astype(int)
      short_ten = -10 *(prices < 20).astype(int)
      final_position = long_thirty + short_ten
      return final_position
  \<close>
\<close>

definition generate_positions ::
  "('r, 'c, real) dataframe \<Rightarrow> ('r, 'c, int) dataframe option" where
  "generate_positions prices =
     (let long_thirty = df_scale 30 (astype_int (df_gt prices 50));
          short_ten = df_scale (- 10) (astype_int (df_lt prices 20));
          final_position = df_add long_thirty short_ten
      in final_position)"

subsection \<open>date_top_industries (top_and_bottom_performing.ipynb)\<close>

datatype py_error = KeyError | TypeError

text \<open>
  \<^verbatim>\<open>frame.loc[label]\<close>: no row carries the label: KeyError; exactly one does: that row as a
  Series labelled by the columns; several do: the sub-table of those rows.
\<close>

datatype ('r, 'c, 'v) loc_result = Row "('c, 'v) series" | Rows "('r, 'c, 'v) dataframe"

definition df_loc :: "('r, 'c, 'v) dataframe \<Rightarrow> 'r \<Rightarrow> py_error + ('r, 'c, 'v) loc_result" where
  "df_loc d label =
     (case filter (\<lambda>(l, vs). l = label) (zip (df_index d) (df_values d)) of
        [] \<Rightarrow> Inl KeyError
      | [(l, vs)] \<Rightarrow> Inr (Row (zip (df_columns d) vs))
      | h1 # h2 # hs \<Rightarrow>
          Inr (Rows \<lparr>df_index = map fst (h1 # h2 # hs), df_columns = df_columns d,
                     df_values = map snd (h1 # h2 # hs)\<rparr>))"

text \<open>
  \<^verbatim>\<open>Series.nlargest(n)\<close> with the default \<^verbatim>\<open>keep='first'\<close>: nothing for \<open>n \<le> 0\<close>; otherwise the
  first \<open>n\<close> entries of the Series sorted by descending value with a stable sort (a stable
  ascending sort of the negated values), so that of two equal values the one that comes
  first in the Series stays first.
\<close>

definition nlargest :: "int \<Rightarrow> ('k, real) series \<Rightarrow> ('k, real) series" where
  "nlargest n s = (if n \<le> 0 then [] else take (nat n) (sort_key (\<lambda>(k, v). - v) s))"

text \<open>
  \<^verbatim>\<open>series.loc[labels]\<close> with a list of labels: the entries of the Series carrying each label,
  label by label; a label that the Series does not have raises KeyError. (Older versions
  of the library only warn as long as one of the labels is found; the claims below are
  about Series that have every label asked for.)
\<close>

definition series_loc :: "('k, 'v) series \<Rightarrow> 'k list \<Rightarrow> py_error + ('k, 'v) series" where
  "series_loc s labels =
     (if list_all (\<lambda>l. l \<in> set (map fst s)) labels
      then Inr (concat (map (\<lambda>l. filter (\<lambda>(k, v). k = l) s) labels))
      else Inl KeyError)"

text \<open>
  \<^verbatim>\<open>
  def date_top_industries(prices, sector, date, top_n):
      top_industries = set(sector.loc[prices.loc[date].nlargest(top_n).index])
      return top_industries
  \<close>
  Called on a sub-table instead of a Series, \<^verbatim>\<open>nlargest(top_n)\<close> lacks its \<^verbatim>\<open>columns\<close>
  argument and raises TypeError, as the notebook shows on \<^verbatim>\<open>close_month.nlargest(2)\<close>.
\<close>

definition date_top_industries ::
  "('r, 'c, real) dataframe \<Rightarrow> ('c, 's) series \<Rightarrow> 'r \<Rightarrow> int \<Rightarrow> py_error + 's set" where
  "date_top_industries prices sector date top_n =
     (case df_loc prices date of
        Inl e \<Rightarrow> Inl e
      | Inr (Rows sub) \<Rightarrow> Inl TypeError
      | Inr (Row row) \<Rightarrow>
          (case series_loc sector (map fst (nlargest top_n row)) of
             Inl e \<Rightarrow> Inl e
           | Inr picked \<Rightarrow> Inr (set (map snd picked))))"

text \<open>
  The selection in the words of the specification: column \<open>j\<close> outranks column \<open>i\<close> when
  its price is larger, or equal with \<open>j\<close> earlier in column order; the top \<open>n\<close> columns of
  a row are those outranked by fewer than \<open>n\<close> columns.
\<close>

definition outranks :: "real list \<Rightarrow> nat \<Rightarrow> nat \<Rightarrow> bool" where
  "outranks ps j i \<longleftrightarrow> ps ! i < ps ! j \<or> (ps ! j = ps ! i \<and> j < i)"

definition top_columns :: "real list \<Rightarrow> nat \<Rightarrow> nat list" where
  "top_columns ps n =
     filter (\<lambda>i. length (filter (\<lambda>j. outranks ps j i) [0..<length ps]) < n) [0..<length ps]"

text \<open>
  The example of the quiz text: prices of the tickers A to E on two dates, and the sector
  of each ticker.
\<close>

definition quiz_prices :: "(string, string, real) dataframe" where
  "quiz_prices = \<lparr>df_index = [''2013-07-08'', ''2013-07-09''],
     df_columns = [''A'', ''B'', ''C'', ''D'', ''E''],
     df_values = [[2, 2, 7, 2, 6], [5, 3, 6, 7, 5]]\<rparr>"

definition quiz_sector :: "(string, string) series" where
  "quiz_sector = [(''A'', ''Utilities''), (''B'', ''Health Care''), (''C'', ''Real Estate''),
     (''D'', ''Real Estate''), (''E'', ''Information Technology'')]"

text \<open>
  A sector Series whose index repeats a label: ticker D is listed under two sectors.
  \<^verbatim>\<open>series.loc[labels]\<close> returns every entry that carries a label asked for.
\<close>

definition dup_sector :: "(string, string) series" where
  "dup_sector = [(''A'', ''Utilities''), (''B'', ''Health Care''), (''C'', ''Real Estate''),
     (''D'', ''Real Estate''), (''D'', ''Energy''), (''E'', ''Information Technology'')]"

text \<open>
  The tables of the recorded runs of the two notebooks: the prices on which the notebook
  displays the positions, and the prices and sectors on which it displays the set of top
  industries for the last date and \<open>top_n = 4\<close>.
\<close>

definition prices_df :: "(string, string, real) dataframe" where
  "prices_df =
     \<lparr>df_index = [''2005-01-22'', ''2005-01-23'', ''2005-01-24'', ''2005-01-25'', ''2005-01-26'',
                  ''2005-01-27''],
      df_columns = [''ESWC'', ''VEDB'', ''HOM'', ''TSGI'', ''SJK''],
      df_values =
        [[65.40757705426432, 27.556319958924323, 50.59935209411175, 56.274712269629134, 99.9873070881051],
         [47.82126720752715, 56.812865745668375, 40.75685814634723, 27.469680989736023, 41.449858088448735],
         [88.20038097315815, 45.573972499280494, 36.592711369868724, 21.36570423559795, 0.698919959739297],
         [14.670236824202721, 49.557949251949054, 18.935364730808935, 23.163368660093298, 8.075599541367884],
         [41.499140208637705, 9.75987296846733, 66.08677766062186, 37.927861417544385, 10.792730405945827],
         [86.26923464863536, 32.12679487375028, 15.621592524570282, 77.1908860965619, 52.733950486350444]]\<rparr>"

definition test_prices :: "(string, string, real) dataframe" where
  "test_prices =
     \<lparr>df_index = [''2008-11-20'', ''2008-11-21''],
      df_columns = [''WDV'', ''WWRI'', ''WTW'', ''CCE'', ''DQE'', ''RTY'', ''LZN'', ''TTXK'', ''TEM'', ''ICYD''],
      df_values =
        [[21.050810483942833, 17.013843810658827, 10.984503755486879, 11.248093428369392,
          12.961712733997235, 482.34539247360806, 35.202580592515041, 3516.5416782257166,
          66.405314327318209, 13.503960481087077],
         [15.63570258751384, 14.69054309070934, 11.353027688995159, 475.74195118202061,
          11.959640427803022, 10.918933017418304, 17.9086438675435, 24.801265417692324,
          12.488954191854916, 15.63570258751384]]\<rparr>"

definition test_sector :: "(string, string) series" where
  "test_sector =
     [(''WDV'', ''ENERGY''), (''WWRI'', ''MATERIALS''), (''WTW'', ''ENERGY''), (''CCE'', ''ENERGY''),
      (''DQE'', ''TELECOM''), (''RTY'', ''FINANCIALS''), (''LZN'', ''TECHNOLOGY''),
      (''TTXK'', ''HEALTH''), (''TEM'', ''MATERIALS''), (''ICYD'', ''REAL ESTATE'')]"

section \<open>The two quiz functions on a store of objects\<close>

text \<open>
  Python passes tables by reference. To state what the two functions do to their
  arguments, the objects live in a store: a reference is a position in the list of
  objects, and a library call that returns a new object appends it to the store. Every
  library call of the two functions reads its operands and builds a new object; none of
  them writes to an operand.
\<close>

datatype ('r, 'c, 's) obj =
    FrameReal "('r, 'c, real) dataframe"
  | FrameBool "('r, 'c, bool) dataframe"
  | FrameInt "('r, 'c, int) dataframe"
  | SeriesReal "('c, real) series"
  | SeriesLabel "('c, 's) series"
  | LabelIndex "'c list"
  | LabelSet "'s set"

type_synonym ('r, 'c, 's) store = "('r, 'c, 's) obj list"

text \<open>Reading a reference, and storing a new object at the next free position.\<close>

definition deref :: "('r, 'c, 's) store \<Rightarrow> nat \<Rightarrow> ('r, 'c, 's) obj option" where
  "deref h r = (if r < length h then Some (h ! r) else None)"

definition alloc :: "('r, 'c, 's) obj \<Rightarrow> ('r, 'c, 's) store \<Rightarrow> nat \<times> ('r, 'c, 's) store" where
  "alloc x h = (length h, h @ [x])"

text \<open>
  The library calls of generate_positions on the store: each reads the objects its operands
  refer to and stores its result as a new object. A call on an object of another kind is
  not modelled (\<open>None\<close>).
\<close>

definition st_gt :: "real \<Rightarrow> nat \<Rightarrow> ('r, 'c, 's) store \<Rightarrow> (nat \<times> ('r, 'c, 's) store) option" where
  "st_gt c r h = (case deref h r of Some (FrameReal d) \<Rightarrow> Some (alloc (FrameBool (df_gt d c)) h)
                  | _ \<Rightarrow> None)"

definition st_lt :: "real \<Rightarrow> nat \<Rightarrow> ('r, 'c, 's) store \<Rightarrow> (nat \<times> ('r, 'c, 's) store) option" where
  "st_lt c r h = (case deref h r of Some (FrameReal d) \<Rightarrow> Some (alloc (FrameBool (df_lt d c)) h)
                  | _ \<Rightarrow> None)"

definition st_astype_int :: "nat \<Rightarrow> ('r, 'c, 's) store \<Rightarrow> (nat \<times> ('r, 'c, 's) store) option" where
  "st_astype_int r h = (case deref h r of Some (FrameBool d) \<Rightarrow> Some (alloc (FrameInt (astype_int d)) h)
                        | _ \<Rightarrow> None)"

definition st_scale :: "int \<Rightarrow> nat \<Rightarrow> ('r, 'c, 's) store \<Rightarrow> (nat \<times> ('r, 'c, 's) store) option" where
  "st_scale k r h = (case deref h r of Some (FrameInt d) \<Rightarrow> Some (alloc (FrameInt (df_scale k d)) h)
                     | _ \<Rightarrow> None)"

definition st_add :: "nat \<Rightarrow> nat \<Rightarrow> ('r, 'c, 's) store \<Rightarrow> (nat \<times> ('r, 'c, 's) store) option" where
  "st_add r1 r2 h =
     (case (deref h r1, deref h r2) of
        (Some (FrameInt a), Some (FrameInt b)) \<Rightarrow>
          (case df_add a b of Some d \<Rightarrow> Some (alloc (FrameInt d) h) | None \<Rightarrow> None)
      | _ \<Rightarrow> None)"

text \<open>generate_positions, statement by statement, on references.\<close>

definition generate_positions_st ::
  "nat \<Rightarrow> ('r, 'c, 's) store \<Rightarrow> (nat \<times> ('r, 'c, 's) store) option" where
  "generate_positions_st prices h =
     Option.bind (st_gt 50 prices h) (\<lambda>(above, h1).
     Option.bind (st_astype_int above h1) (\<lambda>(above_int, h2).
     Option.bind (st_scale 30 above_int h2) (\<lambda>(long_thirty, h3).
     Option.bind (st_lt 20 prices h3) (\<lambda>(below, h4).
     Option.bind (st_astype_int below h4) (\<lambda>(below_int, h5).
     Option.bind (st_scale (- 10) below_int h5) (\<lambda>(short_ten, h6).
     st_add long_thirty short_ten h6))))))"

text \<open>
  The library calls of date_top_industries on the store. \<^verbatim>\<open>nlargest(top_n)\<close> on a table
  instead of a Series raises TypeError, as in the notebook.
\<close>

definition st_loc ::
  "nat \<Rightarrow> 'r \<Rightarrow> ('r, 'c, 's) store \<Rightarrow> py_error + nat \<times> ('r, 'c, 's) store" where
  "st_loc r label h =
     (case deref h r of
        Some (FrameReal d) \<Rightarrow>
          (case df_loc d label of
             Inl e \<Rightarrow> Inl e
           | Inr (Row s) \<Rightarrow> Inr (alloc (SeriesReal s) h)
           | Inr (Rows sub) \<Rightarrow> Inr (alloc (FrameReal sub) h))
      | _ \<Rightarrow> Inl TypeError)"

definition st_nlargest ::
  "int \<Rightarrow> nat \<Rightarrow> ('r, 'c, 's) store \<Rightarrow> py_error + nat \<times> ('r, 'c, 's) store" where
  "st_nlargest n r h =
     (case deref h r of
        Some (SeriesReal s) \<Rightarrow> Inr (alloc (SeriesReal (nlargest n s)) h)
      | _ \<Rightarrow> Inl TypeError)"

definition st_index :: "nat \<Rightarrow> ('r, 'c, 's) store \<Rightarrow> py_error + nat \<times> ('r, 'c, 's) store" where
  "st_index r h =
     (case deref h r of
        Some (SeriesReal s) \<Rightarrow> Inr (alloc (LabelIndex (map fst s)) h)
      | _ \<Rightarrow> Inl TypeError)"

definition st_series_loc ::
  "nat \<Rightarrow> nat \<Rightarrow> ('r, 'c, 's) store \<Rightarrow> py_error + nat \<times> ('r, 'c, 's) store" where
  "st_series_loc r labels h =
     (case (deref h r, deref h labels) of
        (Some (SeriesLabel s), Some (LabelIndex ls)) \<Rightarrow>
          (case series_loc s ls of
             Inl e \<Rightarrow> Inl e
           | Inr picked \<Rightarrow> Inr (alloc (SeriesLabel picked) h))
      | _ \<Rightarrow> Inl TypeError)"

definition st_set :: "nat \<Rightarrow> ('r, 'c, 's) store \<Rightarrow> py_error + nat \<times> ('r, 'c, 's) store" where
  "st_set r h =
     (case deref h r of
        Some (SeriesLabel s) \<Rightarrow> Inr (alloc (LabelSet (set (map snd s))) h)
      | _ \<Rightarrow> Inl TypeError)"

text \<open>Sequencing of calls that may raise: the first error ends the evaluation.\<close>

definition and_then :: "'e + 'a \<Rightarrow> ('a \<Rightarrow> 'e + 'b) \<Rightarrow> 'e + 'b" where
  "and_then x f = (case x of Inl e \<Rightarrow> Inl e | Inr a \<Rightarrow> f a)"

text \<open>
  date_top_industries on references: \<^verbatim>\<open>prices.loc[date]\<close>, \<^verbatim>\<open>.nlargest(top_n)\<close>, \<^verbatim>\<open>.index\<close>,
  \<^verbatim>\<open>sector.loc[...]\<close> and \<^verbatim>\<open>set(...)\<close>, in the order of evaluation.
\<close>

definition date_top_industries_st ::
  "nat \<Rightarrow> nat \<Rightarrow> 'r \<Rightarrow> int \<Rightarrow> ('r, 'c, 's) store \<Rightarrow> py_error + nat \<times> ('r, 'c, 's) store" where
  "date_top_industries_st prices sector date top_n h =
     and_then (st_loc prices date h) (\<lambda>(row, h1).
     and_then (st_nlargest top_n row h1) (\<lambda>(top, h2).
     and_then (st_index top h2) (\<lambda>(labels, h3).
     and_then (st_series_loc sector labels h3) (\<lambda>(picked, h4).
     st_set picked h4))))"

text \<open>A store holding the tables of the quiz example.\<close>

definition quiz_store :: "(string, string, string) store" where
  "quiz_store = [FrameReal quiz_prices, SeriesLabel quiz_sector]"

section \<open>Training a network (Part3_Training-Neural-Networks.ipynb)\<close>

text \<open>
  The notebook calls the library for every numerical step. The model keeps the part of the
  library state that the calls read and write: the parameters of the network (flattened
  into one list) and their accumulated gradient, which is \<^verbatim>\<open>None\<close> until the first backward
  pass, as the notebook prints. A loss value remembers the gradient that its backward pass
  contributes.
\<close>

record optim_state =
  weights :: "real list"
  grad :: "real list option"

record loss_node =
  item :: real
  gradient :: "real list"

text \<open>
  The numerical functions of the library are parameters: the loss of the network with
  given weights on a batch (\<^verbatim>\<open>criterion(model.forward(images), labels)\<close>) and the gradient
  of that loss with respect to the weights, as automatic differentiation computes it.
\<close>

record 'b autodiff =
  loss_of :: "real list \<Rightarrow> 'b \<Rightarrow> real"
  gradient_of :: "real list \<Rightarrow> 'b \<Rightarrow> real list"

text \<open>\<^verbatim>\<open>optimizer.zero_grad()\<close>: every gradient that exists is set to zero.\<close>

definition zero_grad :: "optim_state \<Rightarrow> optim_state" where
  "zero_grad s = s\<lparr>grad := map_option (map (\<lambda>_. 0)) (grad s)\<rparr>"

text \<open>
  \<^verbatim>\<open>output = model.forward(images); loss = criterion(output, labels)\<close>: no change of the
  state; the loss is computed at the current weights.
\<close>

definition forward_loss :: "'b autodiff \<Rightarrow> optim_state \<Rightarrow> 'b \<Rightarrow> loss_node" where
  "forward_loss lib s b =
     \<lparr>item = loss_of lib (weights s) b, gradient = gradient_of lib (weights s) b\<rparr>"

text \<open>
  \<^verbatim>\<open>loss.backward()\<close>: the gradient of the loss is added to the gradient already stored
  (``when you do multiple backwards passes with the same parameters, the gradients are
  accumulated''); the first pass stores it.
\<close>

definition backward :: "loss_node \<Rightarrow> optim_state \<Rightarrow> optim_state" where
  "backward l s =
     s\<lparr>grad := Some (case grad s of None \<Rightarrow> gradient l | Some a \<Rightarrow> map2 (+) a (gradient l))\<rparr>"

text \<open>
  \<^verbatim>\<open>optimizer.step()\<close> for \<^verbatim>\<open>optim.SGD(model.parameters(), lr)\<close>: each weight moves against
  its gradient by the learning rate; parameters without a gradient are skipped.
\<close>

definition sgd_step :: "real \<Rightarrow> optim_state \<Rightarrow> optim_state" where
  "sgd_step lr s =
     (case grad s of
        None \<Rightarrow> s
      | Some g \<Rightarrow> s\<lparr>weights := map2 (\<lambda>w d. w - lr * d) (weights s) g\<rparr>)"

text \<open>
  A session is the state that the loop of the notebook works on: the state of the
  optimizer and its parameters, what has been printed, and the log of the library calls
  made so far. Each call of the loop is modelled as one step of the session that performs
  the call and enters it in the log, so that the log holds a call exactly when and where
  the call was made. The output of the forward pass remembers the weights and the batch it
  was computed from; the loss is computed from that output.
\<close>

datatype 'b event = ZeroGrad | Forward 'b | Criterion 'b | Backward | Step | PrintLoss

record 'b session =
  opt :: optim_state
  calls :: "'b event list"
  printed :: "real list"

record 'b forward_output =
  at_weights :: "real list"
  of_batch :: 'b

text \<open>\<^verbatim>\<open>optimizer.zero_grad()\<close>\<close>

definition call_zero_grad :: "'b session \<Rightarrow> 'b session" where
  "call_zero_grad r = r\<lparr>opt := zero_grad (opt r), calls := calls r @ [ZeroGrad]\<rparr>"

text \<open>\<^verbatim>\<open>output = model.forward(images)\<close>\<close>

definition call_forward :: "'b \<Rightarrow> 'b session \<Rightarrow> 'b forward_output \<times> 'b session" where
  "call_forward b r =
     (\<lparr>at_weights = weights (opt r), of_batch = b\<rparr>, r\<lparr>calls := calls r @ [Forward b]\<rparr>)"

text \<open>\<^verbatim>\<open>loss = criterion(output, labels)\<close>\<close>

definition call_criterion ::
  "'b autodiff \<Rightarrow> 'b forward_output \<Rightarrow> 'b session \<Rightarrow> loss_node \<times> 'b session" where
  "call_criterion lib out r =
     (\<lparr>item = loss_of lib (at_weights out) (of_batch out),
       gradient = gradient_of lib (at_weights out) (of_batch out)\<rparr>,
      r\<lparr>calls := calls r @ [Criterion (of_batch out)]\<rparr>)"

text \<open>\<^verbatim>\<open>loss.backward()\<close>\<close>

definition call_backward :: "loss_node \<Rightarrow> 'b session \<Rightarrow> 'b session" where
  "call_backward l r = r\<lparr>opt := backward l (opt r), calls := calls r @ [Backward]\<rparr>"

text \<open>\<^verbatim>\<open>optimizer.step()\<close>\<close>

definition call_step :: "real \<Rightarrow> 'b session \<Rightarrow> 'b session" where
  "call_step lr r = r\<lparr>opt := sgd_step lr (opt r), calls := calls r @ [Step]\<rparr>"

text \<open>\<^verbatim>\<open>print(f"Training loss: {v}")\<close>\<close>

definition call_print :: "real \<Rightarrow> 'b session \<Rightarrow> 'b session" where
  "call_print v r = r\<lparr>printed := printed r @ [v], calls := calls r @ [PrintLoss]\<rparr>"

text \<open>
  The loop of the notebook. A batch \<open>b\<close> stands for the pair of images and labels;
  reshaping the images is part of it. The variable \<^verbatim>\<open>running_loss\<close> travels with the session.
  \<^verbatim>\<open>
  for e in range(epochs):
      running_loss = 0
      for images, labels in trainloader:
          images = images.view(images.shape[0], -1)
          optimizer.zero_grad()
          output = model.forward(images)
          loss = criterion(output, labels)
          loss.backward()
          optimizer.step()
          running_loss += loss.item()
      else:
          print(f"Training loss: {running_loss/len(trainloader)}")
  \<close>
\<close>

fun training_pass ::
  "'b autodiff \<Rightarrow> real \<Rightarrow> 'b \<Rightarrow> 'b session \<times> real \<Rightarrow> 'b session \<times> real" where
  "training_pass lib lr b (r, running_loss) =
     (let r1 = call_zero_grad r;
          (out, r2) = call_forward b r1;
          (loss, r3) = call_criterion lib out r2;
          r4 = call_backward loss r3;
          r5 = call_step lr r4
      in (r5, running_loss + item loss))"

fun train_batches ::
  "'b autodiff \<Rightarrow> real \<Rightarrow> 'b list \<Rightarrow> 'b session \<times> real \<Rightarrow> 'b session \<times> real" where
  "train_batches lib lr [] st = st"
| "train_batches lib lr (b # bs) st = train_batches lib lr bs (training_pass lib lr b st)"

datatype train_error = ZeroDivisionError

text \<open>
  One epoch: \<open>batches\<close> is what one iteration over \<^verbatim>\<open>trainloader\<close> yields. The \<^verbatim>\<open>else\<close> branch of
  the \<^verbatim>\<open>for\<close> runs when the batches are exhausted; it divides by the number of batches.
\<close>

definition train_epoch ::
  "'b autodiff \<Rightarrow> real \<Rightarrow> 'b list \<Rightarrow> 'b session \<Rightarrow> train_error + 'b session" where
  "train_epoch lib lr batches r =
     (case train_batches lib lr batches (r, 0) of
        (r1, running_loss) \<Rightarrow>
          if length batches = 0 then Inl ZeroDivisionError
          else Inr (call_print (running_loss / real (length batches)) r1))"

fun train_epochs ::
  "'b autodiff \<Rightarrow> real \<Rightarrow> (nat \<Rightarrow> 'b list) \<Rightarrow> nat list \<Rightarrow> 'b session
     \<Rightarrow> train_error + 'b session" where
  "train_epochs lib lr loader [] r = Inr r"
| "train_epochs lib lr loader (e # es) r =
     (case train_epoch lib lr (loader e) r of
        Inl err \<Rightarrow> Inl err
      | Inr r' \<Rightarrow> train_epochs lib lr loader es r')"

definition train ::
  "'b autodiff \<Rightarrow> real \<Rightarrow> (nat \<Rightarrow> 'b list) \<Rightarrow> int \<Rightarrow> optim_state
     \<Rightarrow> train_error + 'b session" where
  "train lib lr loader epochs s =
     train_epochs lib lr loader [0..<nat epochs] \<lparr>opt = s, calls = [], printed = []\<rparr>"

text \<open>
  \<^verbatim>\<open>DataLoader(trainset, batch_size=64, shuffle=True)\<close>: each iteration over the loader
  reorders the data set and cuts it into batches of 64 samples, the last one shorter when
  the size is no multiple of 64. The reordering of the \<open>e\<close>-th iteration is a parameter.
\<close>

function chunks :: "nat \<Rightarrow> 'a list \<Rightarrow> 'a list list" where
  "chunks n xs = (if n = 0 \<or> xs = [] then [] else take n xs # chunks n (drop n xs))"
  by pat_completeness auto
termination
  by (relation "measure (\<lambda>(n, xs). length xs)") auto

declare chunks.simps [simp del]

definition trainloader :: "(nat \<Rightarrow> 'a list \<Rightarrow> 'a list) \<Rightarrow> 'a list \<Rightarrow> nat \<Rightarrow> 'a list list" where
  "trainloader shuffle trainset e = chunks 64 (shuffle e trainset)"

text \<open>
  What the specification says of the loop, for comparison: the calls of one epoch over the
  given batches, in order; and the parameter update of one mini-batch, which moves every
  weight against the gradient of the loss of that batch at the current weights.
\<close>

definition epoch_events :: "'b list \<Rightarrow> 'b event list" where
  "epoch_events bs =
     concat (map (\<lambda>b. [ZeroGrad, Forward b, Criterion b, Backward, Step]) bs) @ [PrintLoss]"

definition sgd_update :: "'b autodiff \<Rightarrow> real \<Rightarrow> 'b \<Rightarrow> real list \<Rightarrow> real list" where
  "sgd_update lib lr b w = map2 (\<lambda>x d. x - lr * d) w (gradient_of lib w b)"

text \<open>A library stand-in for examples: every loss is 1 and every partial derivative is 1.\<close>

definition unit_lib :: "nat list autodiff" where
  "unit_lib = \<lparr>loss_of = (\<lambda>w b. 1), gradient_of = (\<lambda>w b. map (\<lambda>_. 1) w)\<rparr>"

section \<open>Saving and loading models (the checkpoint notebook)\<close>

text \<open>
  A tensor is its shape and its entries. The parameters of a network are named; the state
  dict of the notebook prints the names \<^verbatim>\<open>hidden_layers.0.weight\<close>, \<^verbatim>\<open>hidden_layers.0.bias\<close>,
  \<^verbatim>\<open>hidden_layers.1.weight\<close>, ..., \<^verbatim>\<open>output.weight\<close>, \<^verbatim>\<open>output.bias\<close>, which are the keys
  \<open>HiddenWeight 0\<close>, \<open>HiddenBias 0\<close>, \<open>HiddenWeight 1\<close>, ..., \<open>OutputWeight\<close>, \<open>OutputBias\<close>
  here. A state dict is an ordered dictionary from names to tensors.
\<close>

record tensor =
  shape :: "nat list"
  data :: "real list"

datatype param_key = HiddenWeight nat | HiddenBias nat | OutputWeight | OutputBias

type_synonym state_dict = "(param_key \<times> tensor) list"

text \<open>
  A linear layer as the notebook prints it,
  \<^verbatim>\<open>Linear(in_features=784, out_features=512, bias=True)\<close>, with its two parameters, and a
  network with its list of hidden layers and its output layer (the field \<^verbatim>\<open>output\<close> of the
  source; the dropout module has no parameters and is left out).
\<close>

record linear =
  in_features :: nat
  out_features :: nat
  weight :: tensor
  bias :: tensor

record network =
  hidden_layers :: "linear list"
  output_layer :: linear

text \<open>
  The errors of this notebook: the error of \<^verbatim>\<open>load_state_dict\<close>, which lists the parameters
  whose dimensions in the model differ from those in the checkpoint (as in the output of
  the notebook), the names missing from the checkpoint and the names in the checkpoint
  that the model does not have; an index error; and a missing file.
\<close>

datatype torch_error =
    RuntimeError "param_key list" "param_key list" "param_key list"
  | IndexError
  | FileNotFoundError

text \<open>
  \<^verbatim>\<open>nn.Linear(i, out)\<close>: a weight of shape \<open>[out, i]\<close> and a bias of shape \<open>[out]\<close>. The
  library draws the initial entries at random; \<open>rnd\<close> stands for that source of numbers.
\<close>

definition Linear :: "(nat \<Rightarrow> real) \<Rightarrow> nat \<Rightarrow> nat \<Rightarrow> linear" where
  "Linear rnd i out =
     \<lparr>in_features = i, out_features = out,
      weight = \<lparr>shape = [out, i], data = map rnd [0..<out * i]\<rparr>,
      bias = \<lparr>shape = [out], data = map rnd [0..<out]\<rparr>\<rparr>"

text \<open>
  Modelled from the spec: \<^verbatim>\<open>fc_model.Network(input_size, output_size, hidden_layers)\<close>, whose
  source file is not among the files of the notebooks. The specification describes the
  parameters as ``an ordered list of linear-transformation layers'' and the checkpoint as
  holding ``an ordered list of hidden-layer widths''; the notebook prints the network built
  from \<open>(784, 10, [512, 256, 128])\<close> as the hidden layers 784 to 512, 512 to 256, 256 to
  128 and the output layer 128 to 10. So the first hidden layer maps the input size to the
  first width, each further hidden layer maps one width to the next, and the output layer
  maps the last width to the output size. An empty list of widths has no first width and
  is an error.
\<close>

definition Network :: "(nat \<Rightarrow> real) \<Rightarrow> nat \<Rightarrow> nat \<Rightarrow> nat list \<Rightarrow> torch_error + network" where
  "Network rnd input_size output_size hidden =
     (case hidden of
        [] \<Rightarrow> Inl IndexError
      | h # hs \<Rightarrow>
          Inr \<lparr>hidden_layers = map (\<lambda>(a, b). Linear rnd a b) (zip (input_size # hidden) hidden),
               output_layer = Linear rnd (last hidden) output_size\<rparr>)"

text \<open>\<^verbatim>\<open>model.state_dict()\<close>: the parameters by name, hidden layers first, in order.\<close>

definition hidden_entries :: "nat \<Rightarrow> linear list \<Rightarrow> state_dict" where
  "hidden_entries n ls =
     concat (map (\<lambda>(i, l). [(HiddenWeight i, weight l), (HiddenBias i, bias l)]) (enumerate n ls))"

definition state_dict :: "network \<Rightarrow> state_dict" where
  "state_dict m =
     hidden_entries 0 (hidden_layers m)
     @ [(OutputWeight, weight (output_layer m)), (OutputBias, bias (output_layer m))]"

text \<open>
  \<^verbatim>\<open>model.load_state_dict(state_dict)\<close>, as the notebook describes and shows it: ``loading the
  state dict works only if the model architecture is exactly the same as the checkpoint
  architecture''. Every parameter of the model that the checkpoint names is compared with
  the checkpoint's tensor, and the parameters whose dimensions differ are collected; so are
  the names that only one side has. With nothing collected, the entries of the checkpoint
  are copied into the parameters of the model; otherwise the call raises the error that
  lists what was collected.
\<close>

definition copy_tensor :: "tensor \<Rightarrow> tensor \<Rightarrow> tensor" where
  "copy_tensor p q = p\<lparr>data := data q\<rparr>"

definition load_tensor :: "state_dict \<Rightarrow> param_key \<Rightarrow> tensor \<Rightarrow> tensor" where
  "load_tensor sd k p = (case map_of sd k of None \<Rightarrow> p | Some q \<Rightarrow> copy_tensor p q)"

definition load_linear :: "state_dict \<Rightarrow> param_key \<Rightarrow> param_key \<Rightarrow> linear \<Rightarrow> linear" where
  "load_linear sd kw kb l =
     l\<lparr>weight := load_tensor sd kw (weight l), bias := load_tensor sd kb (bias l)\<rparr>"

definition load_params :: "network \<Rightarrow> state_dict \<Rightarrow> network" where
  "load_params m sd =
     \<lparr>hidden_layers = map (\<lambda>(i, l). load_linear sd (HiddenWeight i) (HiddenBias i) l)
                          (enumerate 0 (hidden_layers m)),
      output_layer = load_linear sd OutputWeight OutputBias (output_layer m)\<rparr>"

definition load_state_dict :: "network \<Rightarrow> state_dict \<Rightarrow> torch_error + network" where
  "load_state_dict m sd =
     (let own = state_dict m;
          mismatched = filter (\<lambda>(k, p). case map_of sd k of None \<Rightarrow> False
                                           | Some q \<Rightarrow> shape q \<noteq> shape p) own;
          missing = filter (\<lambda>k. map_of sd k = None) (map fst own);
          unexpected = filter (\<lambda>k. map_of own k = None) (map fst sd)
      in if mismatched = [] \<and> missing = [] \<and> unexpected = []
         then Inr (load_params m sd)
         else Inl (RuntimeError (map fst mismatched) missing unexpected))"

text \<open>
  The checkpoint of the notebook is a dictionary with four keys. \<^verbatim>\<open>torch.save\<close> writes an
  object to a file and \<^verbatim>\<open>torch.load\<close> reads it back; the serialisation is the library's and
  a file is modelled by the object it holds.
  \<^verbatim>\<open>
  checkpoint = {'input_size': 784,
                'output_size': 10,
                'hidden_layers': [each.out_features for each in model.hidden_layers],
                'state_dict': model.state_dict()}
  torch.save(checkpoint, 'checkpoint.pth')

  def load_checkpoint(filepath):
      checkpoint = torch.load(filepath)
      model = fc_model.Network(checkpoint['input_size'],
                               checkpoint['output_size'],
                               checkpoint['hidden_layers'])
      model.load_state_dict(checkpoint['state_dict'])
      return model
  \<close>
  Nothing in \<^verbatim>\<open>load_checkpoint\<close> catches an exception: an error of any of the three calls is
  the result.
\<close>

record checkpoint =
  input_size :: nat
  output_size :: nat
  ck_hidden_layers :: "nat list"
  ck_state_dict :: state_dict

type_synonym files = "string \<rightharpoonup> checkpoint"

definition torch_save :: "checkpoint \<Rightarrow> string \<Rightarrow> files \<Rightarrow> files" where
  "torch_save obj path fs = fs(path \<mapsto> obj)"

definition torch_load :: "files \<Rightarrow> string \<Rightarrow> torch_error + checkpoint" where
  "torch_load fs path = (case fs path of None \<Rightarrow> Inl FileNotFoundError | Some obj \<Rightarrow> Inr obj)"

definition checkpoint :: "network \<Rightarrow> checkpoint" where
  "checkpoint model =
     \<lparr>input_size = 784, output_size = 10,
      ck_hidden_layers = map out_features (hidden_layers model),
      ck_state_dict = state_dict model\<rparr>"

definition load_checkpoint :: "(nat \<Rightarrow> real) \<Rightarrow> files \<Rightarrow> string \<Rightarrow> torch_error + network" where
  "load_checkpoint rnd fs filepath =
     (case torch_load fs filepath of
        Inl e \<Rightarrow> Inl e
      | Inr ck \<Rightarrow>
          (case Network rnd (input_size ck) (output_size ck) (ck_hidden_layers ck) of
             Inl e \<Rightarrow> Inl e
           | Inr model \<Rightarrow> load_state_dict model (ck_state_dict ck)))"

text \<open>
  The architecture of a network: its input size, its output size and the widths of its
  hidden layers in order, with every layer's tensors shaped accordingly. Training changes
  the entries of the tensors and nothing of this.
\<close>

definition layer_ok :: "linear \<Rightarrow> nat \<Rightarrow> nat \<Rightarrow> bool" where
  "layer_ok l i out \<longleftrightarrow>
     in_features l = i \<and> out_features l = out \<and> shape (weight l) = [out, i] \<and> shape (bias l) = [out]"

definition has_architecture :: "network \<Rightarrow> nat \<Rightarrow> nat \<Rightarrow> nat list \<Rightarrow> bool" where
  "has_architecture m i out hidden \<longleftrightarrow>
     hidden \<noteq> []
     \<and> list_all2 (\<lambda>l (a, b). layer_ok l a b) (hidden_layers m) (zip (i # hidden) hidden)
     \<and> layer_ok (output_layer m) (last hidden) out"

text \<open>Small networks for examples.\<close>

definition example_model :: network where
  "example_model =
     \<lparr>hidden_layers =
        [\<lparr>in_features = 784, out_features = 2,
          weight = \<lparr>shape = [2, 784], data = replicate 1568 (1 / 2)\<rparr>,
          bias = \<lparr>shape = [2], data = [1, 2]\<rparr>\<rparr>],
      output_layer =
        \<lparr>in_features = 2, out_features = 10,
         weight = \<lparr>shape = [10, 2], data = replicate 20 (1 / 4)\<rparr>,
         bias = \<lparr>shape = [10], data = replicate 10 0\<rparr>\<rparr>\<rparr>"

definition small_net :: "nat \<Rightarrow> real \<Rightarrow> network" where
  "small_net h v =
     \<lparr>hidden_layers =
        [\<lparr>in_features = 3, out_features = h,
          weight = \<lparr>shape = [h, 3], data = replicate (h * 3) v\<rparr>,
          bias = \<lparr>shape = [h], data = replicate h v\<rparr>\<rparr>],
      output_layer =
        \<lparr>in_features = h, out_features = 1,
         weight = \<lparr>shape = [1, h], data = replicate h v\<rparr>,
         bias = \<lparr>shape = [1], data = [v]\<rparr>\<rparr>\<rparr>"

section \<open>Properties of generate_positions\<close>

lemma map2_map_same: "map2 f (map g xs) (map h xs) = map (\<lambda>x. f (g x) (h x)) xs"
  by (induction xs) simp_all

lemma map2_rows_same:
  "map2 (map2 f) (map (map g) xss) (map (map h) xss) = map (map (\<lambda>x. f (g x) (h x))) xss"
  by (induction xss) (simp_all add: map2_map_same)

lemma generate_positions_cells:
  "generate_positions prices =
     Some (df_map (\<lambda>p. 30 * (if 50 < p then 1 else 0) + (- 10) * (if p < 20 then 1 else 0)) prices)"
  by (simp add: generate_positions_def df_add_def df_scale_def astype_int_def df_gt_def
      df_lt_def df_map_def map2_rows_same)

text \<open>
  Claim C1. For every price table, generate_positions returns the table with the same
  dates and tickers whose cell for price \<open>p\<close> is 30 times the indicator of \<open>p > 50\<close> plus
  -10 times the indicator of \<open>p < 20\<close>. Both comparisons are strict: a price of exactly 50
  and a price of exactly 20 give the position 0.
\<close>

theorem generate_positions_indicator_sum:
  "generate_positions prices =
     Some \<lparr>df_index = df_index prices, df_columns = df_columns prices,
           df_values = map (map (\<lambda>p. 30 * of_bool (p > 50) + (- 10) * of_bool (p < 20)))
                         (df_values prices)\<rparr>
   \<and> generate_positions \<lparr>df_index = [d], df_columns = [t1, t2], df_values = [[50, 20]]\<rparr> =
     Some \<lparr>df_index = [d], df_columns = [t1, t2], df_values = [[0, 0]]\<rparr>"
proof -
  have cell: "(\<lambda>p::real. 30 * (if 50 < p then 1 else 0) + (- 10) * (if p < 20 then 1 else (0::int)))
      = (\<lambda>p. 30 * of_bool (p > 50) + (- 10) * of_bool (p < 20))"
    by (rule ext) simp
  show ?thesis
    unfolding generate_positions_cells cell by (simp add: df_map_def)
qed

text \<open>
  Claim C9. Every cell of the table returned by generate_positions is -10, 0 or 30: no
  price is above 50 and below 20 at once, so the two scaled indicators are never both
  nonzero in the same cell.
\<close>

theorem generate_positions_range:
  assumes "generate_positions prices = Some out"
  shows "(\<forall>row \<in> set (df_values out). \<forall>x \<in> set row. x = - 10 \<or> x = 0 \<or> x = 30)
       \<and> (\<forall>p::real. \<not> (p > 50 \<and> p < 20))"
proof -
  have "out = df_map (\<lambda>p. 30 * (if 50 < p then 1 else 0) + (- 10) * (if p < 20 then 1 else 0)) prices"
    using assms unfolding generate_positions_cells by simp
  then show ?thesis
    by (auto simp: df_map_def)
qed

theorem generate_positions_range_witness:
  "generate_positions \<lparr>df_index = [1::nat], df_columns = [''A'', ''B'', ''C''],
                       df_values = [[65, 27, 8]]\<rparr>
     = Some \<lparr>df_index = [1], df_columns = [''A'', ''B'', ''C''], df_values = [[30, 0, - 10]]\<rparr>
   \<and> set (concat [[30, 0, - 10 :: int]]) \<subseteq> {- 10, 0, 30}"
proof -
  have run: "generate_positions \<lparr>df_index = [1::nat], df_columns = [''A'', ''B'', ''C''],
                       df_values = [[65, 27, 8]]\<rparr>
     = Some \<lparr>df_index = [1], df_columns = [''A'', ''B'', ''C''], df_values = [[30, 0, - 10]]\<rparr>"
    by (simp add: generate_positions_def df_add_def df_scale_def astype_int_def df_gt_def
        df_lt_def df_map_def)
  show ?thesis
    using generate_positions_range [OF run] run by simp
qed

text \<open>The model reproduces the table of positions that the notebook displays.\<close>

lemma generate_positions_recorded_run:
  "generate_positions prices_df =
     Some \<lparr>df_index = df_index prices_df, df_columns = df_columns prices_df,
           df_values = [[30, 0, 30, 30, 30],
                        [0, 30, 0, 0, 0],
                        [30, 0, 0, 0, - 10],
                        [- 10, 0, - 10, 0, - 10],
                        [0, - 10, 30, 0, - 10],
                        [30, 0, - 10, 30, 30]]\<rparr>"
  by (simp add: generate_positions_cells df_map_def prices_df_def)

section \<open>Properties of date_top_industries\<close>

lemma filter_unique_nth:
  assumes "i < length xs" "P (xs ! i)" "\<forall>j < length xs. P (xs ! j) \<longrightarrow> j = i"
  shows "filter P xs = [xs ! i]"
  using assms
proof (induction xs arbitrary: i)
  case Nil
  then show ?case by simp
next
  case (Cons x xs)
  show ?case
  proof (cases i)
    case 0
    have "\<not> P y" if "y \<in> set xs" for y
    proof
      assume "P y"
      from that obtain j where j: "j < length xs" "xs ! j = y"
        by (auto simp: in_set_conv_nth)
      then have "Suc j < length (x # xs)" "P ((x # xs) ! Suc j)" using \<open>P y\<close> by simp_all
      then have "Suc j = i" using Cons.prems(3) by blast
      then show False using 0 by simp
    qed
    then have "filter P xs = []" by (simp add: filter_empty_conv)
    then show ?thesis using 0 Cons.prems(2) by simp
  next
    case (Suc k)
    have notx: "\<not> P x"
    proof
      assume "P x"
      then have "P ((x # xs) ! 0)" by simp
      then have "0 = i" using Cons.prems(3) by blast
      then show False using Suc by simp
    qed
    have k: "k < length xs" "P (xs ! k)" using Cons.prems(1,2) Suc by simp_all
    have uniq: "\<forall>j < length xs. P (xs ! j) \<longrightarrow> j = k"
    proof (intro allI impI)
      fix j assume "j < length xs" "P (xs ! j)"
      then have "Suc j < length (x # xs)" "P ((x # xs) ! Suc j)" by simp_all
      then have "Suc j = i" using Cons.prems(3) by blast
      then show "j = k" using Suc by simp
    qed
    have "filter P xs = [xs ! k]" using k uniq by (rule Cons.IH)
    then show ?thesis using notx Suc by simp
  qed
qed

lemma df_loc_unique_row:
  assumes "length (df_values d) = length (df_index d)"
    and "i < length (df_index d)" "df_index d ! i = label"
    and "\<forall>j < length (df_index d). df_index d ! j = label \<longrightarrow> j = i"
  shows "df_loc d label = Inr (Row (zip (df_columns d) (df_values d ! i)))"
proof -
  let ?xs = "zip (df_index d) (df_values d)"
  have len: "length ?xs = length (df_index d)" using assms(1) by simp
  have nth: "?xs ! j = (df_index d ! j, df_values d ! j)" if "j < length (df_index d)" for j
    using that assms(1) by simp
  have i: "i < length ?xs" using assms(2) len by simp
  have hit: "case ?xs ! i of (l, vs) \<Rightarrow> l = label"
    using nth [OF assms(2)] assms(3) by simp
  have uniq: "\<forall>j<length ?xs. (case ?xs ! j of (l, vs) \<Rightarrow> l = label) \<longrightarrow> j = i"
  proof (intro allI impI)
    fix j assume j: "j < length ?xs" and "case ?xs ! j of (l, vs) \<Rightarrow> l = label"
    then have "df_index d ! j = label" using nth len by simp
    then show "j = i" using assms(4) j len by simp
  qed
  have "filter (\<lambda>(l, vs). l = label) ?xs = [?xs ! i]"
    using i hit uniq by (rule filter_unique_nth)
  then have "filter (\<lambda>(l, vs). l = label) ?xs = [(label, df_values d ! i)]"
    using nth [OF assms(2)] assms(3) by simp
  then show ?thesis by (simp add: df_loc_def)
qed

lemma sorted_wrt_insort_key_lex:
  assumes "sorted_wrt (\<lambda>a b. f a < f b \<or> (f a = f b \<and> R a b)) ys" "\<forall>y\<in>set ys. R x y"
  shows "sorted_wrt (\<lambda>a b. f a < f b \<or> (f a = f b \<and> R a b)) (insort_key f x ys)"
  using assms
proof (induction ys)
  case Nil
  then show ?case by simp
next
  case (Cons y ys)
  show ?case
  proof (cases "f x \<le> f y")
    case True
    have "f x < f z \<or> (f x = f z \<and> R x z)" if "z \<in> set (y # ys)" for z
    proof -
      have "f y \<le> f z" using that Cons.prems(1) by auto
      then have "f x \<le> f z" using True by simp
      moreover have "R x z" using that Cons.prems(2) by auto
      ultimately show ?thesis by auto
    qed
    then show ?thesis using True Cons.prems(1) by simp
  next
    case False
    then show ?thesis using Cons by (auto simp: set_insort_key)
  qed
qed

lemma sorted_wrt_sort_key_lex:
  assumes "sorted_wrt R xs"
  shows "sorted_wrt (\<lambda>a b. f a < f b \<or> (f a = f b \<and> R a b)) (sort_key f xs)"
  using assms
proof (induction xs)
  case Nil
  then show ?case by simp
next
  case (Cons x xs)
  then show ?case by (simp add: sorted_wrt_insort_key_lex)
qed

lemma insort_key_map_comp:
  "insort_key f (g x) (map g ys) = map g (insort_key (\<lambda>a. f (g a)) x ys)"
  by (induction ys) simp_all

lemma sort_key_map_comp: "sort_key f (map g xs) = map g (sort_key (\<lambda>a. f (g a)) xs)"
proof (induction xs)
  case Nil
  then show ?case by simp
next
  case (Cons x xs)
  have "sort_key f (map g (x # xs)) = insort_key f (g x) (sort_key f (map g xs))"
    by simp
  also have "\<dots> = insort_key f (g x) (map g (sort_key (\<lambda>a. f (g a)) xs))"
    by (simp only: Cons.IH)
  also have "\<dots> = map g (insort_key (\<lambda>a. f (g a)) x (sort_key (\<lambda>a. f (g a)) xs))"
    by (rule insort_key_map_comp)
  also have "\<dots> = map g (sort_key (\<lambda>a. f (g a)) (x # xs))"
    by simp
  finally show ?case .
qed

lemma sorted_wrt_below_nth:
  assumes "sorted_wrt L ys" "m < length ys" "\<And>a b. L a b \<Longrightarrow> \<not> L b a"
  shows "{z \<in> set ys. L z (ys ! m)} = set (take m ys)"
proof (intro equalityI subsetI)
  fix z assume "z \<in> {z \<in> set ys. L z (ys ! m)}"
  then obtain k where k: "k < length ys" "ys ! k = z" "L z (ys ! m)"
    by (auto simp: in_set_conv_nth)
  have "k < m"
  proof (rule ccontr)
    assume "\<not> k < m"
    then have "m = k \<or> m < k" by auto
    then show False
    proof
      assume "m = k" then show False using k assms(3) by blast
    next
      assume "m < k"
      have "L (ys ! m) (ys ! k)" using assms(1) \<open>m < k\<close> k(1) by (rule sorted_wrt_nth_less)
      then show False using k assms(3) by blast
    qed
  qed
  then show "z \<in> set (take m ys)" using k assms(2) by (auto simp: in_set_conv_nth)
next
  fix z assume "z \<in> set (take m ys)"
  then obtain k where k: "k < m" "ys ! k = z" using assms(2) by (auto simp: in_set_conv_nth)
  have "L (ys ! k) (ys ! m)" using assms(1) k(1) assms(2) by (rule sorted_wrt_nth_less)
  then show "z \<in> {z \<in> set ys. L z (ys ! m)}"
    using k assms(2) by auto
qed


lemma sorted_wrt_take_rank:
  assumes "sorted_wrt L ys" "distinct ys" "\<And>a b. L a b \<Longrightarrow> \<not> L b a"
  shows "set (take k ys) = {y \<in> set ys. card {z \<in> set ys. L z y} < k}"
proof -
  have rank: "card {z \<in> set ys. L z (ys ! m)} = m" if "m < length ys" for m
  proof -
    have "card {z \<in> set ys. L z (ys ! m)} = card (set (take m ys))"
      using sorted_wrt_below_nth [OF assms(1) that assms(3)] by simp
    also have "\<dots> = m" using assms(2) that by (simp add: distinct_card)
    finally show ?thesis .
  qed
  show ?thesis
  proof (intro equalityI subsetI)
    fix y assume "y \<in> set (take k ys)"
    then obtain m where "m < k" "m < length ys" "ys ! m = y"
      by (auto simp: in_set_conv_nth)
    then show "y \<in> {y \<in> set ys. card {z \<in> set ys. L z y} < k}"
      using rank by auto
  next
    fix y assume "y \<in> {y \<in> set ys. card {z \<in> set ys. L z y} < k}"
    then obtain m where m: "m < length ys" "ys ! m = y" and "card {z \<in> set ys. L z y} < k"
      by (auto simp: in_set_conv_nth)
    then have "m < k" using rank by auto
    then show "y \<in> set (take k ys)" using m by (auto simp: in_set_conv_nth)
  qed
qed

lemma stable_desc_take_positions:
  fixes ps :: "real list" and cols :: "'c list"
  assumes len: "length ps = length cols"
  shows "set (take k (sort_key (\<lambda>a. - snd (snd a)) (zip [0..<length ps] (zip cols ps))))
       = (\<lambda>i. (i, cols ! i, ps ! i)) ` set (top_columns ps k)"
proof -
  let ?n = "length ps"
  let ?irow = "zip [0..<?n] (zip cols ps)"
  let ?key = "\<lambda>a :: nat \<times> 'c \<times> real. - snd (snd a)"
  let ?L = "\<lambda>a b. ?key a < ?key b \<or> (?key a = ?key b \<and> fst a < fst b)"
  let ?ys = "sort_key ?key ?irow"
  let ?at = "\<lambda>i. (i, cols ! i, ps ! i)"
  have leni: "length ?irow = ?n" using len by simp
  have nth: "?irow ! i = ?at i" if "i < ?n" for i
    using that len by simp
  have set_irow: "set ?irow = ?at ` {0..<?n}"
  proof (intro equalityI subsetI)
    fix e assume "e \<in> set ?irow"
    then obtain i where "i < length ?irow" "?irow ! i = e" by (auto simp: in_set_conv_nth)
    then show "e \<in> ?at ` {0..<?n}" using nth leni by auto
  next
    fix e assume "e \<in> ?at ` {0..<?n}"
    then obtain i where "i < ?n" "e = ?at i" by auto
    then have "i < length ?irow" "?irow ! i = e" using nth leni by auto
    then show "e \<in> set ?irow" by (auto simp: in_set_conv_nth)
  qed
  have "sorted_wrt (\<lambda>a b. fst a < fst b) ?irow"
    unfolding sorted_wrt_iff_nth_less using len by simp
  then have sorted: "sorted_wrt ?L ?ys" by (rule sorted_wrt_sort_key_lex)
  have dist: "distinct ?ys" by (simp add: distinct_zipI1)
  have asym: "\<And>a b. ?L a b \<Longrightarrow> \<not> ?L b a" by auto
  have take_rank: "set (take k ?ys) = {y \<in> set ?ys. card {z \<in> set ?ys. ?L z y} < k}"
    using sorted dist asym by (rule sorted_wrt_take_rank)
  have rank: "card {z \<in> set ?irow. ?L z (?at i)} = length (filter (\<lambda>j. outranks ps j i) [0..<?n])"
    if "i < ?n" for i
  proof -
    have "{z \<in> set ?irow. ?L z (?at i)} = ?at ` {j. j < ?n \<and> outranks ps j i}"
      unfolding set_irow by (auto simp: outranks_def)
    moreover have "inj_on ?at {j. j < ?n \<and> outranks ps j i}"
      by (rule inj_onI) simp
    ultimately have "card {z \<in> set ?irow. ?L z (?at i)} = card {j. j < ?n \<and> outranks ps j i}"
      by (simp add: card_image)
    also have "\<dots> = length (filter (\<lambda>j. outranks ps j i) [0..<?n])"
      by (simp add: distinct_length_filter Int_def conj_commute)
    finally show ?thesis .
  qed
  have "{y \<in> set ?ys. card {z \<in> set ?ys. ?L z y} < k} = ?at ` set (top_columns ps k)"
  proof (intro equalityI subsetI)
    fix y assume "y \<in> {y \<in> set ?ys. card {z \<in> set ?ys. ?L z y} < k}"
    then have y: "y \<in> set ?irow" "card {z \<in> set ?irow. ?L z y} < k" by simp_all
    then obtain i where i: "i < ?n" "y = ?at i" unfolding set_irow by auto
    then have "length (filter (\<lambda>j. outranks ps j i) [0..<?n]) < k" using y(2) rank by simp
    then have "i \<in> set (top_columns ps k)" using i(1) by (simp add: top_columns_def)
    then show "y \<in> ?at ` set (top_columns ps k)" using i(2) by blast
  next
    fix y assume "y \<in> ?at ` set (top_columns ps k)"
    then obtain i where i: "y = ?at i" "i < ?n"
      "length (filter (\<lambda>j. outranks ps j i) [0..<?n]) < k"
      by (auto simp: top_columns_def)
    then have "y \<in> set ?irow" unfolding set_irow by simp
    moreover have "card {z \<in> set ?irow. ?L z y} < k" using i rank by simp
    ultimately show "y \<in> {y \<in> set ?ys. card {z \<in> set ?ys. ?L z y} < k}" by simp
  qed
  then show ?thesis using take_rank by simp
qed

lemma nlargest_labels:
  fixes ps :: "real list"
  assumes "length ps = length cols" "0 < n"
  shows "set (map fst (nlargest n (zip cols ps))) = (\<lambda>i. cols ! i) ` set (top_columns ps (nat n))"
proof -
  let ?irow = "zip [0..<length ps] (zip cols ps)"
  have row: "zip cols ps = map snd ?irow" using assms(1) by (simp add: map_snd_zip)
  have key: "(\<lambda>(k::'a, v::real). - v) = (\<lambda>a. - snd a)" by (simp add: fun_eq_iff)
  have "sort_key (\<lambda>(k, v). - v) (zip cols ps) = map snd (sort_key (\<lambda>a. - snd (snd a)) ?irow)"
    unfolding key by (subst row) (rule sort_key_map_comp)
  then have "map fst (nlargest n (zip cols ps))
      = map (\<lambda>a. fst (snd a)) (take (nat n) (sort_key (\<lambda>a. - snd (snd a)) ?irow))"
    using assms(2) by (simp add: nlargest_def take_map)
  then have "set (map fst (nlargest n (zip cols ps)))
      = (\<lambda>a. fst (snd a)) ` ((\<lambda>i. (i, cols ! i, ps ! i)) ` set (top_columns ps (nat n)))"
    using stable_desc_take_positions [OF assms(1), of "nat n"] by simp
  then show ?thesis by (simp add: image_image)
qed

lemma series_loc_covered:
  assumes "set labels \<subseteq> fst ` set s"
  shows "series_loc s labels = Inr (concat (map (\<lambda>l. filter (\<lambda>(k, v). k = l) s) labels))"
  using assms by (auto simp: series_loc_def list_all_iff)

lemma set_picked_values:
  "set (map snd (concat (map (\<lambda>l. filter (\<lambda>(k, v). k = l) s) labels)))
     = {v. \<exists>l \<in> set labels. (l, v) \<in> set s}"
  by (auto simp: image_iff)

lemma top_columns_bound: "c \<in> set (top_columns ps k) \<Longrightarrow> c < length ps"
  by (simp add: top_columns_def)

lemma date_top_industries_on_row:
  assumes "df_loc prices date = Inr (Row row)"
  shows "date_top_industries prices sector date top_n =
     (case series_loc sector (map fst (nlargest top_n row)) of
        Inl e \<Rightarrow> Inl e
      | Inr picked \<Rightarrow> Inr (set (map snd picked)))"
  using assms by (simp add: date_top_industries_def)

lemma date_top_industries_covered:
  assumes "df_loc prices date = Inr (Row row)"
    and "set (map fst (nlargest top_n row)) \<subseteq> fst ` set sector"
  shows "date_top_industries prices sector date top_n =
     Inr {s. \<exists>l \<in> set (map fst (nlargest top_n row)). (l, s) \<in> set sector}"
  unfolding date_top_industries_on_row [OF assms(1)] series_loc_covered [OF assms(2)]
  by (simp only: sum.case set_picked_values)

text \<open>
  Claim C2. Let the price table have exactly one row labelled \<open>date\<close> (row \<open>i\<close>, as long
  as the column list), let the sector Series have an entry for every ticker of the table,
  and let \<open>top_n \<ge> 1\<close>. Then date_top_industries returns the set of the sector labels of
  the top \<open>top_n\<close> columns of that row: the columns with the largest prices, where of two
  columns with equal prices the one that comes first in column order is taken first.
\<close>

theorem date_top_industries_top_sectors:
  assumes "length (df_values prices) = length (df_index prices)"
    and "i < length (df_index prices)" "df_index prices ! i = date"
    and "\<forall>j < length (df_index prices). df_index prices ! j = date \<longrightarrow> j = i"
    and "length (df_values prices ! i) = length (df_columns prices)"
    and "set (df_columns prices) \<subseteq> fst ` set sector"
    and "1 \<le> top_n"
  shows "date_top_industries prices sector date top_n =
     Inr {s. \<exists>c \<in> set (top_columns (df_values prices ! i) (nat top_n)).
               (df_columns prices ! c, s) \<in> set sector}"
proof -
  let ?cols = "df_columns prices" and ?ps = "df_values prices ! i"
  have loc: "df_loc prices date = Inr (Row (zip ?cols ?ps))"
    using assms(1-4) by (rule df_loc_unique_row)
  have labels: "set (map fst (nlargest top_n (zip ?cols ?ps)))
      = (\<lambda>c. ?cols ! c) ` set (top_columns ?ps (nat top_n))"
    using assms(5,7) by (intro nlargest_labels) simp_all
  have "(\<lambda>c. ?cols ! c) ` set (top_columns ?ps (nat top_n)) \<subseteq> set ?cols"
    using assms(5) by (auto dest: top_columns_bound)
  then have cover: "set (map fst (nlargest top_n (zip ?cols ?ps))) \<subseteq> fst ` set sector"
    using labels assms(6) by simp
  show ?thesis
    unfolding date_top_industries_covered [OF loc cover] labels by auto
qed

theorem date_top_industries_top_sectors_witness: "date_top_industries quiz_prices quiz_sector ''2013-07-08'' 2
     = Inr {''Real Estate'', ''Information Technology''}"
proof -
  have tc: "top_columns [2, 2, 7, 2, 6] 2 = [2, 4]"
    by (simp add: top_columns_def outranks_def upt_rec)
  have "date_top_industries quiz_prices quiz_sector ''2013-07-08'' 2 =
     Inr {s. \<exists>c \<in> set (top_columns (df_values quiz_prices ! 0) (nat 2)).
               (df_columns quiz_prices ! c, s) \<in> set quiz_sector}"
    by (rule date_top_industries_top_sectors [where i = 0])
       (simp_all add: quiz_prices_def quiz_sector_def All_less_Suc)
  also have "\<dots> = Inr {''Real Estate'', ''Information Technology''}"
    by (auto simp: quiz_prices_def quiz_sector_def tc)
  finally show ?thesis .
qed


text \<open>
  Claim C6. On the example of the quiz text, for the date 2013-07-09 and \<open>top_n = 3\<close>,
  date_top_industries returns exactly Utilities and Real Estate: the three tickers taken
  are D, C and A; A and E tie at the price 5 and only A, which comes first, is taken, so
  the sector of E is not returned.
\<close>

theorem date_top_industries_quiz: "date_top_industries quiz_prices quiz_sector ''2013-07-09'' 3 = Inr {''Utilities'', ''Real Estate''}
  \<and> map fst (nlargest 3 (zip [''A'', ''B'', ''C'', ''D'', ''E''] [5, 3, 6, 7, 5]))
      = [''D'', ''C'', ''A'']"
  by (simp add: date_top_industries_def quiz_prices_def quiz_sector_def df_loc_def nlargest_def series_loc_def insert_commute)

lemma df_loc_RowD: "df_loc d l = Inr (Row row) \<Longrightarrow> \<exists>vs. row = zip (df_columns d) vs"
  by (auto simp: df_loc_def split: list.splits prod.splits)

lemma date_top_industries_InrD:
  assumes "date_top_industries prices sector date top_n = Inr S"
  shows "\<exists>vs. S = set (map snd (concat (map (\<lambda>l. filter (\<lambda>(k, v). k = l) sector)
                         (map fst (nlargest top_n (zip (df_columns prices) vs))))))"
proof -
  from assms obtain row picked where loc: "df_loc prices date = Inr (Row row)"
    and sel: "series_loc sector (map fst (nlargest top_n row)) = Inr picked"
    and S: "S = set (map snd picked)"
    by (auto simp: date_top_industries_def split: sum.splits loc_result.splits)
  from df_loc_RowD [OF loc] obtain vs where row: "row = zip (df_columns prices) vs" ..
  from sel have "picked = concat (map (\<lambda>l. filter (\<lambda>(k, v). k = l) sector)
                         (map fst (nlargest top_n row)))"
    by (simp add: series_loc_def split: if_splits)
  then show ?thesis using S row by blast
qed

lemma length_nlargest: "0 \<le> n \<Longrightarrow> length (nlargest n s) \<le> min (nat n) (length s)"
  by (simp add: nlargest_def)

lemma set_nlargest_subset: "set (nlargest n s) \<subseteq> set s"
proof (cases "n \<le> 0")
  case True
  then show ?thesis by (simp add: nlargest_def)
next
  case False
  have "set (take (nat n) (sort_key (\<lambda>(k, v). - v) s)) \<subseteq> set (sort_key (\<lambda>(k, v). - v) s)"
    by (rule set_take_subset)
  then show ?thesis using False by (simp add: nlargest_def)
qed

lemma length_filter_key_le1:
  "distinct (map fst s) \<Longrightarrow> length (filter (\<lambda>(k, v). k = l) s) \<le> 1"
proof (induction s)
  case Nil
  then show ?case by simp
next
  case (Cons e s)
  obtain k v where e: "e = (k, v)" by (cases e)
  show ?case
  proof (cases "k = l")
    case True
    then have "l \<notin> fst ` set s" using Cons.prems e by simp
    then have "filter (\<lambda>(k, v). k = l) s = []"
      by (auto simp: filter_empty_conv image_iff)
    then show ?thesis using e True by simp
  next
    case False
    then show ?thesis using Cons e by simp
  qed
qed

lemma length_concat_le:
  "(\<And>x. x \<in> set xs \<Longrightarrow> length (f x) \<le> 1) \<Longrightarrow> length (concat (map f xs)) \<le> length xs"
proof (induction xs)
  case Nil
  then show ?case by simp
next
  case (Cons x xs)
  have "length (f x) \<le> 1" using Cons.prems by simp
  moreover have "length (concat (map f xs)) \<le> length xs" using Cons by simp
  ultimately show ?case by simp
qed

lemma nlargest_all_labels:
  assumes "length ps = length cols" "int (length cols) \<le> n"
  shows "set (map fst (nlargest n (zip cols ps))) = set cols"
proof (cases "n \<le> 0")
  case True
  then have "length cols = 0" using assms(2) by linarith
  then have "cols = []" by simp
  then show ?thesis by (simp add: nlargest_def)
next
  case False
  have "length (sort_key (\<lambda>(k, v). - v) (zip cols ps)) \<le> nat n"
    using assms by simp
  then have "nlargest n (zip cols ps) = sort_key (\<lambda>(k, v). - v) (zip cols ps)"
    using False by (simp add: nlargest_def)
  then have "set (map fst (nlargest n (zip cols ps))) = fst ` set (zip cols ps)" by simp
  also have "\<dots> = set (map fst (zip cols ps))" by simp
  also have "\<dots> = set cols" using assms(1) by (simp only: map_fst_zip)
  finally show ?thesis .
qed

lemma date_top_industries_result_facts:
  "(date_top_industries prices sector date top_n = Inr S \<longrightarrow>
      (0 \<le> top_n \<and> distinct (map fst sector) \<longrightarrow>
         int (card S) \<le> min top_n (int (length (df_columns prices))))
      \<and> (\<forall>s \<in> S. \<exists>t \<in> set (df_columns prices). (t, s) \<in> set sector))
   \<and> (length (df_values prices) = length (df_index prices)
        \<and> i < length (df_index prices) \<and> df_index prices ! i = date
        \<and> (\<forall>j < length (df_index prices). df_index prices ! j = date \<longrightarrow> j = i)
        \<and> length (df_values prices ! i) = length (df_columns prices)
        \<and> set (df_columns prices) \<subseteq> fst ` set sector
        \<and> int (length (df_columns prices)) \<le> top_n
      \<longrightarrow> date_top_industries prices sector date top_n =
            Inr {s. \<exists>t \<in> set (df_columns prices). (t, s) \<in> set sector})"
proof (intro conjI impI)
  assume ret: "date_top_industries prices sector date top_n = Inr S"
    and "0 \<le> top_n \<and> distinct (map fst sector)"
  then have n: "0 \<le> top_n" and dist: "distinct (map fst sector)" by simp_all
  from date_top_industries_InrD [OF ret]
  obtain vs where S: "S = set (map snd (concat (map (\<lambda>l. filter (\<lambda>(k, v). k = l) sector)
                         (map fst (nlargest top_n (zip (df_columns prices) vs))))))" ..
  let ?labels = "map fst (nlargest top_n (zip (df_columns prices) vs))"
  let ?picked = "concat (map (\<lambda>l. filter (\<lambda>(k, v). k = l) sector) ?labels)"
  have "card S \<le> length ?picked" unfolding S using card_length [of "map snd ?picked"] by simp
  also have "\<dots> \<le> length ?labels"
    using dist by (intro length_concat_le length_filter_key_le1)
  also have "\<dots> \<le> min (nat top_n) (length (zip (df_columns prices) vs))"
    using length_nlargest [OF n, of "zip (df_columns prices) vs"] by simp
  also have "\<dots> \<le> min (nat top_n) (length (df_columns prices))" by simp
  finally have "card S \<le> nat top_n" "card S \<le> length (df_columns prices)"
    by simp_all
  then show "int (card S) \<le> min top_n (int (length (df_columns prices)))"
    using n by linarith
next
  assume ret: "date_top_industries prices sector date top_n = Inr S"
  from date_top_industries_InrD [OF ret]
  obtain vs where S: "S = set (map snd (concat (map (\<lambda>l. filter (\<lambda>(k, v). k = l) sector)
                         (map fst (nlargest top_n (zip (df_columns prices) vs))))))" ..
  show "\<forall>s \<in> S. \<exists>t \<in> set (df_columns prices). (t, s) \<in> set sector"
  proof
    fix s assume "s \<in> S"
    then obtain l where l: "l \<in> set (map fst (nlargest top_n (zip (df_columns prices) vs)))"
      and ls: "(l, s) \<in> set sector"
      unfolding S set_picked_values by blast
    from l obtain p where "(l, p) \<in> set (nlargest top_n (zip (df_columns prices) vs))" by auto
    then have "(l, p) \<in> set (zip (df_columns prices) vs)"
      using set_nlargest_subset [of top_n "zip (df_columns prices) vs"] by (rule_tac subsetD)
    then have "l \<in> set (df_columns prices)" by (rule set_zip_leftD)
    then show "\<exists>t \<in> set (df_columns prices). (t, s) \<in> set sector" using ls by blast
  qed
next
  assume h: "length (df_values prices) = length (df_index prices)
        \<and> i < length (df_index prices) \<and> df_index prices ! i = date
        \<and> (\<forall>j < length (df_index prices). df_index prices ! j = date \<longrightarrow> j = i)
        \<and> length (df_values prices ! i) = length (df_columns prices)
        \<and> set (df_columns prices) \<subseteq> fst ` set sector
        \<and> int (length (df_columns prices)) \<le> top_n"
  let ?cols = "df_columns prices" and ?ps = "df_values prices ! i"
  note h1 = h [THEN conjunct1]
    and h2 = h [THEN conjunct2, THEN conjunct1]
    and h3 = h [THEN conjunct2, THEN conjunct2, THEN conjunct1]
    and h4 = h [THEN conjunct2, THEN conjunct2, THEN conjunct2, THEN conjunct1]
    and h5 = h [THEN conjunct2, THEN conjunct2, THEN conjunct2, THEN conjunct2, THEN conjunct1]
    and h6 = h [THEN conjunct2, THEN conjunct2, THEN conjunct2, THEN conjunct2, THEN conjunct2,
                THEN conjunct1]
    and h7 = h [THEN conjunct2, THEN conjunct2, THEN conjunct2, THEN conjunct2, THEN conjunct2,
                THEN conjunct2]
  have loc: "df_loc prices date = Inr (Row (zip ?cols ?ps))"
    using h1 h2 h3 h4 by (rule df_loc_unique_row)
  have labels: "set (map fst (nlargest top_n (zip ?cols ?ps))) = set ?cols"
    using h5 h7 by (rule nlargest_all_labels)
  have cover: "set (map fst (nlargest top_n (zip ?cols ?ps))) \<subseteq> fst ` set sector"
    unfolding labels by (rule h6)
  show "date_top_industries prices sector date top_n =
            Inr {s. \<exists>t \<in> set (df_columns prices). (t, s) \<in> set sector}"
    unfolding date_top_industries_covered [OF loc cover] labels ..
qed

text \<open>
  Claim C10, amended. Let \<open>top_n\<close> be a count \<open>n\<close>. Whenever date_top_industries returns a
  set \<open>S\<close>: if the sector Series lists no ticker twice, \<open>S\<close> has at most
  \<open>min n (number of tickers)\<close> elements; and every element of \<open>S\<close> is the sector label of some
  ticker of the table. When the table has the row of the date (one row labelled \<open>date\<close>,
  row \<open>i\<close>, as long as the column list), the sector Series has every ticker of the table,
  and \<open>n\<close> is at least the number of tickers, the function returns the sectors of all
  tickers.
\<close>

theorem date_top_industries_bounds:
  "(date_top_industries prices sector date (int n) = Inr S \<longrightarrow>
      (distinct (map fst sector) \<longrightarrow> card S \<le> min n (length (df_columns prices)))
      \<and> (\<forall>s \<in> S. \<exists>t \<in> set (df_columns prices). (t, s) \<in> set sector))
   \<and> (length (df_values prices) = length (df_index prices)
        \<and> i < length (df_index prices) \<and> df_index prices ! i = date
        \<and> (\<forall>j < length (df_index prices). df_index prices ! j = date \<longrightarrow> j = i)
        \<and> length (df_values prices ! i) = length (df_columns prices)
        \<and> set (df_columns prices) \<subseteq> fst ` set sector
        \<and> length (df_columns prices) \<le> n
      \<longrightarrow> date_top_industries prices sector date (int n) =
            Inr {s. \<exists>t \<in> set (df_columns prices). (t, s) \<in> set sector})"
proof (intro conjI impI)
  assume ret: "date_top_industries prices sector date (int n) = Inr S"
    and dist: "distinct (map fst sector)"
  note facts = date_top_industries_result_facts [of prices sector date "int n" S i]
  have pre: "0 \<le> int n \<and> distinct (map fst sector)" using dist by simp
  have "int (card S) \<le> min (int n) (int (length (df_columns prices)))"
    using facts [THEN conjunct1, THEN mp, OF ret, THEN conjunct1, THEN mp, OF pre] .
  then show "card S \<le> min n (length (df_columns prices))" by linarith
next
  assume ret: "date_top_industries prices sector date (int n) = Inr S"
  note facts = date_top_industries_result_facts [of prices sector date "int n" S i]
  show "\<forall>s \<in> S. \<exists>t \<in> set (df_columns prices). (t, s) \<in> set sector"
    using facts [THEN conjunct1, THEN mp, OF ret, THEN conjunct2] .
next
  assume h: "length (df_values prices) = length (df_index prices)
        \<and> i < length (df_index prices) \<and> df_index prices ! i = date
        \<and> (\<forall>j < length (df_index prices). df_index prices ! j = date \<longrightarrow> j = i)
        \<and> length (df_values prices ! i) = length (df_columns prices)
        \<and> set (df_columns prices) \<subseteq> fst ` set sector
        \<and> length (df_columns prices) \<le> n"
  note facts = date_top_industries_result_facts [of prices sector date "int n" S i]
  note h1 = h [THEN conjunct1]
    and h2 = h [THEN conjunct2, THEN conjunct1]
    and h3 = h [THEN conjunct2, THEN conjunct2, THEN conjunct1]
    and h4 = h [THEN conjunct2, THEN conjunct2, THEN conjunct2, THEN conjunct1]
    and h5 = h [THEN conjunct2, THEN conjunct2, THEN conjunct2, THEN conjunct2, THEN conjunct1]
    and h6 = h [THEN conjunct2, THEN conjunct2, THEN conjunct2, THEN conjunct2, THEN conjunct2,
                THEN conjunct1]
    and h7 = h [THEN conjunct2, THEN conjunct2, THEN conjunct2, THEN conjunct2, THEN conjunct2,
                THEN conjunct2]
  have h7': "int (length (df_columns prices)) \<le> int n" using h7 by linarith
  have "length (df_values prices) = length (df_index prices)
        \<and> i < length (df_index prices) \<and> df_index prices ! i = date
        \<and> (\<forall>j < length (df_index prices). df_index prices ! j = date \<longrightarrow> j = i)
        \<and> length (df_values prices ! i) = length (df_columns prices)
        \<and> set (df_columns prices) \<subseteq> fst ` set sector
        \<and> int (length (df_columns prices)) \<le> int n"
    using h1 h2 h3 h4 h5 h6 h7' by (intro conjI)
  from facts [THEN conjunct2, THEN mp, OF this]
  show "date_top_industries prices sector date (int n) =
            Inr {s. \<exists>t \<in> set (df_columns prices). (t, s) \<in> set sector}" .
qed

theorem date_top_industries_bounds_witness:
  "date_top_industries quiz_prices quiz_sector ''2013-07-09'' (int 7)
     = Inr {''Utilities'', ''Health Care'', ''Real Estate'', ''Information Technology''}
   \<and> card {''Utilities'', ''Health Care'', ''Real Estate'', ''Information Technology''}
       \<le> min 7 (length (df_columns quiz_prices))
   \<and> distinct (map fst quiz_sector)
   \<and> length (df_columns quiz_prices) \<le> 7"
proof -
  let ?S = "{''Utilities'', ''Health Care'', ''Real Estate'', ''Information Technology''}"
  note bounds = date_top_industries_bounds [of quiz_prices quiz_sector "''2013-07-09''" 7 "?S" 1]
  have all: "{s. \<exists>t \<in> set (df_columns quiz_prices). (t, s) \<in> set quiz_sector} = ?S"
    by (auto simp: quiz_prices_def quiz_sector_def)
  have dist: "distinct (map fst quiz_sector)" by (simp add: quiz_sector_def)
  have len: "length (df_columns quiz_prices) \<le> 7" by (simp add: quiz_prices_def)
  have "length (df_values quiz_prices) = length (df_index quiz_prices)
        \<and> 1 < length (df_index quiz_prices) \<and> df_index quiz_prices ! 1 = ''2013-07-09''
        \<and> (\<forall>j < length (df_index quiz_prices). df_index quiz_prices ! j = ''2013-07-09'' \<longrightarrow> j = 1)
        \<and> length (df_values quiz_prices ! 1) = length (df_columns quiz_prices)
        \<and> set (df_columns quiz_prices) \<subseteq> fst ` set quiz_sector
        \<and> length (df_columns quiz_prices) \<le> 7"
    by (simp add: quiz_prices_def quiz_sector_def All_less_Suc)
  from bounds [THEN conjunct2, THEN mp, OF this]
  have ret: "date_top_industries quiz_prices quiz_sector ''2013-07-09'' (int 7) = Inr ?S"
    unfolding all .
  have "card ?S \<le> min 7 (length (df_columns quiz_prices))"
    using bounds [THEN conjunct1, THEN mp, OF ret, THEN conjunct1, THEN mp, OF dist] .
  then show ?thesis using ret dist len by (intro conjI)
qed

text \<open>
  The bound of claim C10 as first stated, for every sector Series, fails when the Series
  lists a ticker twice: on 2013-07-09 the one top ticker is D, the lookup returns both
  entries of D, and the result has two elements for \<open>top_n = 1\<close>.
\<close>

theorem date_top_industries_bounds_counterexample:
  "date_top_industries quiz_prices dup_sector ''2013-07-09'' 1 = Inr {''Real Estate'', ''Energy''}
   \<and> \<not> card {''Real Estate'', ''Energy''} \<le> min 1 (length (df_columns quiz_prices))"
  by (simp add: date_top_industries_def quiz_prices_def dup_sector_def df_loc_def nlargest_def
      series_loc_def)

text \<open>
  Why the last part of the claim speaks of a table that has the row of the date and of a
  sector Series that has every ticker: with the date on two rows the selection is made on
  a sub-table and raises TypeError, and a ticker that the sector Series lacks raises
  KeyError. A negative \<open>top_n\<close> is no count; it selects nothing.
\<close>

lemma date_top_industries_failures:
  "date_top_industries (quiz_prices\<lparr>df_index := [''2013-07-09'', ''2013-07-09'']\<rparr>) quiz_sector
      ''2013-07-09'' 5 = Inl TypeError"
  "date_top_industries quiz_prices (take 4 quiz_sector) ''2013-07-09'' 5 = Inl KeyError"
  "date_top_industries quiz_prices quiz_sector ''2013-07-09'' (- 1) = Inr {}"
  by (simp_all add: date_top_industries_def quiz_prices_def quiz_sector_def df_loc_def
      nlargest_def series_loc_def)

text \<open>
  The model reproduces the set that the notebook displays for its test input, where the
  fourth place is a tie between the first and the last ticker and the first one is taken.
\<close>

lemma date_top_industries_recorded_run:
  "date_top_industries test_prices test_sector ''2008-11-21'' 4
     = Inr {''ENERGY'', ''HEALTH'', ''TECHNOLOGY''}"
  by (simp add: date_top_industries_def test_prices_def test_sector_def df_loc_def nlargest_def
      series_loc_def insert_commute)

section \<open>The quiz functions leave their arguments alone\<close>

lemma deref_append: "deref h r = Some x \<Longrightarrow> deref (h @ new) r = Some x"
  by (auto simp: deref_def nth_append split: if_splits)

lemma deref_new: "deref (h @ [x]) (length h) = Some x"
  by (simp add: deref_def)

lemma st_gt_run:
  "deref h r = Some (FrameReal d) \<Longrightarrow> st_gt c r h = Some (length h, h @ [FrameBool (df_gt d c)])"
  by (simp add: st_gt_def alloc_def)

lemma st_lt_run:
  "deref h r = Some (FrameReal d) \<Longrightarrow> st_lt c r h = Some (length h, h @ [FrameBool (df_lt d c)])"
  by (simp add: st_lt_def alloc_def)

lemma st_astype_int_run:
  "deref h r = Some (FrameBool d) \<Longrightarrow>
     st_astype_int r h = Some (length h, h @ [FrameInt (astype_int d)])"
  by (simp add: st_astype_int_def alloc_def)

lemma st_scale_run:
  "deref h r = Some (FrameInt d) \<Longrightarrow>
     st_scale k r h = Some (length h, h @ [FrameInt (df_scale k d)])"
  by (simp add: st_scale_def alloc_def)

lemma st_add_run:
  "deref h r1 = Some (FrameInt a) \<Longrightarrow> deref h r2 = Some (FrameInt b) \<Longrightarrow> df_add a b = Some d
     \<Longrightarrow> st_add r1 r2 h = Some (length h, h @ [FrameInt d])"
  by (simp add: st_add_def alloc_def)

lemma generate_positions_st_run:
  assumes p: "deref h p = Some (FrameReal prices)"
  shows "\<exists>tmp out. generate_positions prices = Some out \<and> length tmp = 6
           \<and> generate_positions_st p h = Some (length h + 6, h @ tmp @ [FrameInt out])"
proof -
  obtain out where out: "generate_positions prices = Some out"
    by (simp add: generate_positions_cells)
  define a where "a = df_gt prices 50"
  define ai where "ai = astype_int a"
  define l where "l = df_scale 30 ai"
  define b where "b = df_lt prices 20"
  define bi where "bi = astype_int b"
  define s where "s = df_scale (- 10) bi"
  define h1 where "h1 = h @ [FrameBool a]"
  define h2 where "h2 = h1 @ [FrameInt ai]"
  define h3 where "h3 = h2 @ [FrameInt l]"
  define h4 where "h4 = h3 @ [FrameBool b]"
  define h5 where "h5 = h4 @ [FrameInt bi]"
  define h6 where "h6 = h5 @ [FrameInt s]"
  have s1: "st_gt 50 p h = Some (length h, h1)"
    unfolding h1_def a_def using p by (rule st_gt_run)
  have s2: "st_astype_int (length h) h1 = Some (length h1, h2)"
    unfolding h2_def ai_def by (rule st_astype_int_run) (simp add: h1_def deref_new)
  have s3: "st_scale 30 (length h1) h2 = Some (length h2, h3)"
    unfolding h3_def l_def by (rule st_scale_run) (simp add: h2_def deref_new)
  have p3: "deref h3 p = Some (FrameReal prices)"
    unfolding h3_def h2_def h1_def by (intro deref_append p)
  have s4: "st_lt 20 p h3 = Some (length h3, h4)"
    unfolding h4_def b_def using p3 by (rule st_lt_run)
  have s5: "st_astype_int (length h3) h4 = Some (length h4, h5)"
    unfolding h5_def bi_def by (rule st_astype_int_run) (simp add: h4_def deref_new)
  have s6: "st_scale (- 10) (length h4) h5 = Some (length h5, h6)"
    unfolding h6_def s_def by (rule st_scale_run) (simp add: h5_def deref_new)
  have "deref h3 (length h2) = Some (FrameInt l)" by (simp add: h3_def deref_new)
  then have l6: "deref h6 (length h2) = Some (FrameInt l)"
    unfolding h6_def h5_def h4_def by (intro deref_append)
  have r6: "deref h6 (length h5) = Some (FrameInt s)" by (simp add: h6_def deref_new)
  have add: "df_add l s = Some out"
    using out by (simp add: generate_positions_def l_def s_def ai_def bi_def a_def b_def)
  have s7: "st_add (length h2) (length h5) h6 = Some (length h6, h6 @ [FrameInt out])"
    using l6 r6 add by (rule st_add_run)
  have run: "generate_positions_st p h = Some (length h6, h6 @ [FrameInt out])"
    by (simp add: generate_positions_st_def s1 s2 s3 s4 s5 s6 s7)
  have "length h6 = length h + 6"
    and "h6 @ [FrameInt out] =
      h @ [FrameBool a, FrameInt ai, FrameInt l, FrameBool b, FrameInt bi, FrameInt s] @ [FrameInt out]"
    by (simp_all add: h6_def h5_def h4_def h3_def h2_def h1_def)
  then have "generate_positions_st p h = Some (length h + 6,
      h @ [FrameBool a, FrameInt ai, FrameInt l, FrameBool b, FrameInt bi, FrameInt s] @ [FrameInt out])"
    using run by simp
  then show ?thesis using out
    by (intro exI [of _ "[FrameBool a, FrameInt ai, FrameInt l, FrameBool b, FrameInt bi, FrameInt s]"]
        exI [of _ out]) simp
qed

lemma st_loc_run:
  "deref h r = Some (FrameReal d) \<Longrightarrow>
     st_loc r label h =
       (case df_loc d label of
          Inl e \<Rightarrow> Inl e
        | Inr (Row s) \<Rightarrow> Inr (length h, h @ [SeriesReal s])
        | Inr (Rows sub) \<Rightarrow> Inr (length h, h @ [FrameReal sub]))"
  by (simp add: st_loc_def alloc_def split: sum.splits loc_result.splits)

lemma st_nlargest_run:
  "deref h r = Some (SeriesReal s) \<Longrightarrow>
     st_nlargest n r h = Inr (length h, h @ [SeriesReal (nlargest n s)])"
  by (simp add: st_nlargest_def alloc_def)

lemma st_nlargest_frame:
  "deref h r = Some (FrameReal d) \<Longrightarrow> st_nlargest n r h = Inl TypeError"
  by (simp add: st_nlargest_def)

lemma st_index_run:
  "deref h r = Some (SeriesReal s) \<Longrightarrow> st_index r h = Inr (length h, h @ [LabelIndex (map fst s)])"
  by (simp add: st_index_def alloc_def)

lemma st_series_loc_run:
  "deref h r = Some (SeriesLabel s) \<Longrightarrow> deref h labels = Some (LabelIndex ls) \<Longrightarrow>
     st_series_loc r labels h =
       (case series_loc s ls of Inl e \<Rightarrow> Inl e | Inr picked \<Rightarrow> Inr (length h, h @ [SeriesLabel picked]))"
  by (simp add: st_series_loc_def alloc_def split: sum.splits)

lemma st_set_run:
  "deref h r = Some (SeriesLabel s) \<Longrightarrow> st_set r h = Inr (length h, h @ [LabelSet (set (map snd s))])"
  by (simp add: st_set_def alloc_def)

lemma date_top_industries_st_run:
  assumes p: "deref h p = Some (FrameReal prices)" and s: "deref h sec = Some (SeriesLabel sector)"
  shows "date_top_industries_st p sec date top_n h =
     (case date_top_industries prices sector date top_n of
        Inl e \<Rightarrow> Inl e
      | Inr S \<Rightarrow> Inr (length h + 4,
          h @ (case df_loc prices date of
                 Inr (Row row) \<Rightarrow>
                   [SeriesReal row, SeriesReal (nlargest top_n row),
                    LabelIndex (map fst (nlargest top_n row)),
                    SeriesLabel (concat (map (\<lambda>l. filter (\<lambda>(k, v). k = l) sector)
                                    (map fst (nlargest top_n row))))]
               | _ \<Rightarrow> [])
            @ [LabelSet S]))"
proof (cases "df_loc prices date")
  case (Inl e)
  then show ?thesis using p
    by (simp add: date_top_industries_st_def date_top_industries_def st_loc_run and_then_def)
next
  case (Inr res)
  show ?thesis
  proof (cases res)
    case (Rows sub)
    have "st_loc p date h = Inr (length h, h @ [FrameReal sub])"
      using p Inr Rows by (simp add: st_loc_run)
    moreover have "st_nlargest top_n (length h) (h @ [FrameReal sub]) = Inl TypeError"
      by (rule st_nlargest_frame) (rule deref_new)
    ultimately show ?thesis using Inr Rows
      by (simp add: date_top_industries_st_def date_top_industries_def and_then_def)
  next
    case (Row row)
    define top where "top = nlargest top_n row"
    define h1 where "h1 = h @ [SeriesReal row]"
    define h2 where "h2 = h1 @ [SeriesReal top]"
    define h3 where "h3 = h2 @ [LabelIndex (map fst top)]"
    have s1: "st_loc p date h = Inr (length h, h1)"
      using p Inr Row by (simp add: st_loc_run h1_def)
    have s2: "st_nlargest top_n (length h) h1 = Inr (length h1, h2)"
      unfolding h2_def top_def by (rule st_nlargest_run) (simp add: h1_def deref_new)
    have s3: "st_index (length h1) h2 = Inr (length h2, h3)"
      unfolding h3_def by (rule st_index_run) (simp add: h2_def deref_new)
    have sec3: "deref h3 sec = Some (SeriesLabel sector)"
      unfolding h3_def h2_def h1_def by (intro deref_append s)
    have lab3: "deref h3 (length h2) = Some (LabelIndex (map fst top))"
      by (simp add: h3_def deref_new)
    have s4: "st_series_loc sec (length h2) h3 =
        (case series_loc sector (map fst top) of
           Inl e \<Rightarrow> Inl e | Inr picked \<Rightarrow> Inr (length h3, h3 @ [SeriesLabel picked]))"
      using sec3 lab3 by (rule st_series_loc_run)
    show ?thesis
    proof (cases "series_loc sector (map fst top)")
      case (Inl e)
      then show ?thesis using Inr Row s1 s2 s3 s4
        by (simp add: date_top_industries_st_def date_top_industries_def and_then_def top_def)
    next
      case picked: (Inr picked)
      then have pk: "picked = concat (map (\<lambda>l. filter (\<lambda>(k, v). k = l) sector) (map fst top))"
        by (simp add: series_loc_def split: if_splits)
      have s5: "st_set (length h3) (h3 @ [SeriesLabel picked]) =
          Inr (length h3 + 1, (h3 @ [SeriesLabel picked]) @ [LabelSet (set (map snd picked))])"
        using st_set_run [OF deref_new, of h3 picked] by simp
      have "date_top_industries_st p sec date top_n h =
          Inr (length h3 + 1, (h3 @ [SeriesLabel picked]) @ [LabelSet (set (map snd picked))])"
        using s1 s2 s3 s4 s5 picked
        by (simp add: date_top_industries_st_def and_then_def)
      moreover have "date_top_industries prices sector date top_n = Inr (set (map snd picked))"
        using Inr Row picked by (simp add: date_top_industries_def top_def)
      moreover have "length h3 + 1 = length h + 4" by (simp add: h3_def h2_def h1_def)
      moreover have "(h3 @ [SeriesLabel picked]) @ [LabelSet (set (map snd picked))]
          = h @ [SeriesReal row, SeriesReal top, LabelIndex (map fst top), SeriesLabel picked]
              @ [LabelSet (set (map snd picked))]"
        by (simp add: h3_def h2_def h1_def)
      ultimately show ?thesis using Inr Row pk by (simp add: top_def)
    qed
  qed
qed

lemma take_length_append: "take (length h) (h @ new) = h"
  by simp

text \<open>
  Claim C8. Let \<open>p\<close> refer to a price table and \<open>sec\<close> to a sector Series in a store
  \<open>h\<close>. generate_positions returns a reference to a new object holding its result, and
  a call of either function that returns leaves every object of \<open>h\<close> as it was (so the
  tables \<open>prices\<close> and \<open>sector\<close> are unchanged and the only effect is the storing of new
  objects); calling the function again in the resulting store returns an object with the
  same value, and a call that raises an error raises the same error in every store that
  extends \<open>h\<close>.
\<close>

theorem quiz_functions_pure:
  fixes h :: "('r, 'c, 's) store"
  assumes p: "deref h p = Some (FrameReal prices)" and s: "deref h sec = Some (SeriesLabel sector)"
  shows "(\<exists>r h'. generate_positions_st p h = Some (r, h')
            \<and> deref h' r = map_option FrameInt (generate_positions prices))
       \<and> (\<forall>r h'. generate_positions_st p h = Some (r, h') \<longrightarrow>
            take (length h) h' = h
            \<and> (\<exists>r2 h2. generate_positions_st p h' = Some (r2, h2) \<and> deref h2 r2 = deref h' r))
       \<and> (\<forall>r h'. date_top_industries_st p sec date top_n h = Inr (r, h') \<longrightarrow>
            take (length h) h' = h
            \<and> (\<exists>S. date_top_industries prices sector date top_n = Inr S
                   \<and> deref h' r = Some (LabelSet S))
            \<and> (\<exists>r2 h2. date_top_industries_st p sec date top_n h' = Inr (r2, h2)
                   \<and> deref h2 r2 = deref h' r))
       \<and> (\<forall>e new. date_top_industries_st p sec date top_n h = Inl e \<longrightarrow>
            date_top_industries_st p sec date top_n (h @ new) = Inl e)"
proof (intro conjI allI impI)
  from generate_positions_st_run [OF p]
  obtain tmp out where out: "generate_positions prices = Some out" "length tmp = 6"
    and run: "generate_positions_st p h = Some (length h + 6, h @ tmp @ [FrameInt out])"
    by blast
  have res: "deref (h @ tmp @ [FrameInt out]) (length h + 6) = Some (FrameInt out)"
    using deref_new [of "h @ tmp" "FrameInt out"] out(2) by simp
  show "\<exists>r h'. generate_positions_st p h = Some (r, h')
            \<and> deref h' r = map_option FrameInt (generate_positions prices)"
    using run res out(1) by simp
  fix r h' assume "generate_positions_st p h = Some (r, h')"
  then have r: "r = length h + 6" and h': "h' = h @ tmp @ [FrameInt out]" using run by simp_all
  show "take (length h) h' = h" unfolding h' by (rule take_length_append)
  have "deref h' p = Some (FrameReal prices)" unfolding h' using p by (rule deref_append)
  from generate_positions_st_run [OF this]
  obtain tmp2 where "length tmp2 = 6"
    and run2: "generate_positions_st p h' = Some (length h' + 6, h' @ tmp2 @ [FrameInt out])"
    using out(1) by auto
  then have "deref (h' @ tmp2 @ [FrameInt out]) (length h' + 6) = Some (FrameInt out)"
    using deref_new [of "h' @ tmp2" "FrameInt out"] by simp
  then show "\<exists>r2 h2. generate_positions_st p h' = Some (r2, h2) \<and> deref h2 r2 = deref h' r"
    using run2 res r h' by simp
next
  fix r h' assume ret: "date_top_industries_st p sec date top_n h = Inr (r, h')"
  note run = date_top_industries_st_run [OF p s, of date top_n]
  from ret run obtain S where S: "date_top_industries prices sector date top_n = Inr S"
    by (cases "date_top_industries prices sector date top_n") simp_all
  define tmp :: "('r, 'c, 's) store" where "tmp = (case df_loc prices date of
                 Inr (Row row) \<Rightarrow>
                   [SeriesReal row, SeriesReal (nlargest top_n row),
                    LabelIndex (map fst (nlargest top_n row)),
                    SeriesLabel (concat (map (\<lambda>l. filter (\<lambda>(k, v). k = l) sector)
                                    (map fst (nlargest top_n row))))]
               | _ \<Rightarrow> [])"
  have tmp4: "length tmp = 4"
    using S by (auto simp: tmp_def date_top_industries_def split: sum.splits loc_result.splits)
  have r: "r = length h + 4" and h': "h' = h @ tmp @ [LabelSet S]"
    using ret run S by (simp_all add: tmp_def)
  have res: "deref h' r = Some (LabelSet S)"
    unfolding r h' using deref_new [of "h @ tmp" "LabelSet S"] tmp4 by simp
  show "take (length h) h' = h" unfolding h' by (rule take_length_append)
  show "\<exists>S. date_top_industries prices sector date top_n = Inr S \<and> deref h' r = Some (LabelSet S)"
    using S res by blast
  have p': "deref h' p = Some (FrameReal prices)" unfolding h' using p by (rule deref_append)
  have s': "deref h' sec = Some (SeriesLabel sector)" unfolding h' using s by (rule deref_append)
  have run2: "date_top_industries_st p sec date top_n h' = Inr (length h' + 4, h' @ tmp @ [LabelSet S])"
    using date_top_industries_st_run [OF p' s', of date top_n] S by (simp add: tmp_def)
  have "deref (h' @ tmp @ [LabelSet S]) (length h' + 4) = Some (LabelSet S)"
    using deref_new [of "h' @ tmp" "LabelSet S"] tmp4 by simp
  then show "\<exists>r2 h2. date_top_industries_st p sec date top_n h' = Inr (r2, h2)
                   \<and> deref h2 r2 = deref h' r"
    using run2 res by simp
next
  fix e new assume err: "date_top_industries_st p sec date top_n h = Inl e"
  have e: "date_top_industries prices sector date top_n = Inl e"
    using err date_top_industries_st_run [OF p s, of date top_n]
    by (cases "date_top_industries prices sector date top_n") simp_all
  have "deref (h @ new) p = Some (FrameReal prices)" using p by (rule deref_append)
  moreover have "deref (h @ new) sec = Some (SeriesLabel sector)" using s by (rule deref_append)
  ultimately show "date_top_industries_st p sec date top_n (h @ new) = Inl e"
    using e by (simp add: date_top_industries_st_run)
qed

theorem quiz_functions_pure_witness:
  "(\<exists>r h'. generate_positions_st 0 quiz_store = Some (r, h') \<and> take 2 h' = quiz_store)
   \<and> (\<exists>r h'. date_top_industries_st 0 1 ''2013-07-09'' 3 quiz_store = Inr (r, h')
         \<and> take 2 h' = quiz_store
         \<and> deref h' r = Some (LabelSet {''Utilities'', ''Real Estate''}))"
proof -
  have p: "deref quiz_store 0 = Some (FrameReal quiz_prices)"
    and s: "deref quiz_store 1 = Some (SeriesLabel quiz_sector)"
    by (simp_all add: quiz_store_def deref_def)
  note pure = quiz_functions_pure [OF p s, of "''2013-07-09''" 3]
  have len: "length quiz_store = 2" by (simp add: quiz_store_def)
  have "\<exists>r h'. generate_positions_st 0 quiz_store = Some (r, h') \<and> take 2 h' = quiz_store"
    using pure len by metis
  moreover have "\<exists>r h'. date_top_industries_st 0 1 ''2013-07-09'' 3 quiz_store = Inr (r, h')
         \<and> take 2 h' = quiz_store
         \<and> deref h' r = Some (LabelSet {''Utilities'', ''Real Estate''})"
  proof -
    have val: "date_top_industries quiz_prices quiz_sector ''2013-07-09'' 3
        = Inr {''Utilities'', ''Real Estate''}"
      by (simp add: date_top_industries_def quiz_prices_def quiz_sector_def df_loc_def
          nlargest_def series_loc_def insert_commute)
    then obtain r h' where run: "date_top_industries_st 0 1 ''2013-07-09'' 3 quiz_store = Inr (r, h')"
      using date_top_industries_st_run [OF p s, of "''2013-07-09''" 3] by simp
    then have "take 2 h' = quiz_store"
      and "\<exists>S. date_top_industries quiz_prices quiz_sector ''2013-07-09'' 3 = Inr S
             \<and> deref h' r = Some (LabelSet S)"
      using pure len by metis+
    then show ?thesis using run val by auto
  qed
  ultimately show ?thesis by blast
qed

section \<open>Properties of the training loop\<close>

lemma concat_chunks: "0 < n \<Longrightarrow> concat (chunks n xs) = xs"
proof (induction n xs rule: chunks.induct)
  case (1 n xs)
  show ?case
  proof (cases "xs = []")
    case True
    then show ?thesis by (simp add: chunks.simps)
  next
    case False
    then have "concat (chunks n (drop n xs)) = drop n xs" using 1 by simp
    then show ?thesis using False 1(2) by (subst chunks.simps) simp
  qed
qed

lemma chunks_nonempty: "0 < n \<Longrightarrow> xs \<noteq> [] \<Longrightarrow> chunks n xs \<noteq> []"
  by (subst chunks.simps) simp

text \<open>
  A run of the loop by evaluation: one epoch over the two batches 1 and 2, with a loss that
  is the batch and a gradient that is the weight times the batch, at learning rate 1/2
  from the weight 1. The weight goes to 1/2, then to 0; the mean loss 3/2 is printed.
\<close>

lemma train_two_batches:
  "train \<lparr>loss_of = (\<lambda>w b. real b), gradient_of = (\<lambda>w b. map (\<lambda>x. x * real b) w)\<rparr> (1/2)
      (\<lambda>e. [1, 2]) 1 \<lparr>weights = [1], grad = None\<rparr>
   = Inr \<lparr>opt = \<lparr>weights = [0], grad = Some [1]\<rparr>,
          calls = [ZeroGrad, Forward 1, Criterion 1, Backward, Step,
                   ZeroGrad, Forward 2, Criterion 2, Backward, Step, PrintLoss],
          printed = [3/2]\<rparr>"
  by (simp add: train_def train_epoch_def call_zero_grad_def call_forward_def
      call_criterion_def call_backward_def call_step_def call_print_def zero_grad_def
      backward_def sgd_step_def)

text \<open>
  One training pass, when gradients have the size of the weights: the five calls are made
  in order, the weights become those of the update on this batch alone, and the stored
  gradient is the gradient of this batch.
\<close>

lemma map2_add_zeros: "length g = n \<Longrightarrow> map2 (+) (replicate n (0::real)) g = g"
proof (induction g arbitrary: n)
  case Nil
  then show ?case by simp
next
  case (Cons x g)
  then obtain m where "n = Suc m" "length g = m" by (cases n) auto
  then show ?case using Cons.IH [of m] by simp
qed

lemma map_zero_replicate: "map (\<lambda>_. 0::real) a = replicate (length a) 0"
  by (induction a) simp_all

lemma training_pass_effect:
  assumes sized: "\<And>w b. length (gradient_of lib w b) = length w"
    and inv: "\<And>a. grad (opt r) = Some a \<Longrightarrow> length a = length (weights (opt r))"
  shows "\<exists>r' l'. training_pass lib lr b (r, l) = (r', l')
           \<and> weights (opt r') = sgd_update lib lr b (weights (opt r))
           \<and> grad (opt r') = Some (gradient_of lib (weights (opt r)) b)
           \<and> calls r' = calls r @ [ZeroGrad, Forward b, Criterion b, Backward, Step]
           \<and> printed r' = printed r"
proof -
  define w where "w = weights (opt r)"
  define g where "g = gradient_of lib w b"
  have lg: "length g = length w" unfolding g_def by (rule sized)
  have cleared: "grad (backward \<lparr>item = x, gradient = g\<rparr> (zero_grad (opt r))) = Some g" for x
  proof (cases "grad (opt r)")
    case None
    then show ?thesis by (simp add: backward_def zero_grad_def)
  next
    case (Some a)
    then have "length a = length g" using inv lg by (simp add: w_def)
    then show ?thesis using Some
      by (simp add: backward_def zero_grad_def map_zero_replicate map2_add_zeros)
  qed
  have kept: "weights (backward \<lparr>item = x, gradient = g\<rparr> (zero_grad (opt r))) = w" for x
    by (simp add: backward_def zero_grad_def w_def)
  have stepped: "weights (sgd_step lr (backward \<lparr>item = x, gradient = g\<rparr> (zero_grad (opt r))))
      = map2 (\<lambda>x d. x - lr * d) w g" for x
    using cleared [of x] kept [of x] by (simp add: sgd_step_def)
  have gstep: "grad (sgd_step lr (backward \<lparr>item = x, gradient = g\<rparr> (zero_grad (opt r)))) = Some g"
    for x using cleared [of x] by (simp add: sgd_step_def)
  have wz: "weights (zero_grad (opt r)) = w" by (simp add: zero_grad_def w_def)
  show ?thesis
    using stepped gstep wz
    by (simp add: call_zero_grad_def call_forward_def call_criterion_def call_backward_def
        call_step_def sgd_update_def Let_def w_def [symmetric] g_def [symmetric])
qed

lemma train_batches_effect:
  assumes sized: "\<And>w b. length (gradient_of lib w b) = length w"
    and inv: "\<And>a. grad (opt r) = Some a \<Longrightarrow> length a = length (weights (opt r))"
  shows "\<exists>r' l'. train_batches lib lr bs (r, l) = (r', l')
           \<and> weights (opt r') = fold (sgd_update lib lr) bs (weights (opt r))
           \<and> (\<forall>a. grad (opt r') = Some a \<longrightarrow> length a = length (weights (opt r')))
           \<and> calls r' = calls r @ concat (map (\<lambda>b. [ZeroGrad, Forward b, Criterion b, Backward, Step]) bs)
           \<and> printed r' = printed r"
  using inv
proof (induction bs arbitrary: r l)
  case Nil
  then show ?case by simp
next
  case (Cons b bs)
  from training_pass_effect [of lib r lr b l, OF sized Cons.prems]
  obtain r1 l1 where pass: "training_pass lib lr b (r, l) = (r1, l1)"
    and w1: "weights (opt r1) = sgd_update lib lr b (weights (opt r))"
    and g1: "grad (opt r1) = Some (gradient_of lib (weights (opt r)) b)"
    and c1: "calls r1 = calls r @ [ZeroGrad, Forward b, Criterion b, Backward, Step]"
    and p1: "printed r1 = printed r"
    by blast
  have "length (weights (opt r1)) = length (weights (opt r))"
    unfolding w1 sgd_update_def by (simp add: sized)
  then have inv1: "\<And>a. grad (opt r1) = Some a \<Longrightarrow> length a = length (weights (opt r1))"
    using g1 by (auto simp: sized)
  from Cons.IH [of r1 l1, OF inv1]
  obtain r' l' where rest: "train_batches lib lr bs (r1, l1) = (r', l')"
    and w': "weights (opt r') = fold (sgd_update lib lr) bs (weights (opt r1))"
    and i': "\<forall>a. grad (opt r') = Some a \<longrightarrow> length a = length (weights (opt r'))"
    and c': "calls r' = calls r1 @ concat (map (\<lambda>b. [ZeroGrad, Forward b, Criterion b, Backward, Step]) bs)"
    and p': "printed r' = printed r1"
    by blast
  have "train_batches lib lr (b # bs) (r, l) = (r', l')" using pass rest by simp
  moreover have "weights (opt r') = fold (sgd_update lib lr) (b # bs) (weights (opt r))"
    using w' w1 by simp
  moreover have "calls r' = calls r @ concat (map (\<lambda>b. [ZeroGrad, Forward b, Criterion b, Backward, Step]) (b # bs))"
    using c' c1 by simp
  ultimately show ?case using i' p' p1 by simp
qed

lemma train_epoch_effect:
  assumes sized: "\<And>w b. length (gradient_of lib w b) = length w"
    and inv: "\<And>a. grad (opt r) = Some a \<Longrightarrow> length a = length (weights (opt r))"
    and "bs \<noteq> []"
  shows "\<exists>r'. train_epoch lib lr bs r = Inr r'
           \<and> weights (opt r') = fold (sgd_update lib lr) bs (weights (opt r))
           \<and> (\<forall>a. grad (opt r') = Some a \<longrightarrow> length a = length (weights (opt r')))
           \<and> calls r' = calls r @ epoch_events bs"
proof -
  from train_batches_effect [of lib r lr bs 0, OF sized inv]
  obtain r1 l1 where run: "train_batches lib lr bs (r, 0) = (r1, l1)"
    and w1: "weights (opt r1) = fold (sgd_update lib lr) bs (weights (opt r))"
    and i1: "\<forall>a. grad (opt r1) = Some a \<longrightarrow> length a = length (weights (opt r1))"
    and c1: "calls r1 = calls r @ concat (map (\<lambda>b. [ZeroGrad, Forward b, Criterion b, Backward, Step]) bs)"
    by blast
  have "train_epoch lib lr bs r = Inr (call_print (l1 / real (length bs)) r1)"
    using run assms(3) by (simp add: train_epoch_def)
  then show ?thesis using w1 i1 c1 by (simp add: call_print_def epoch_events_def)
qed

lemma train_epochs_effect:
  assumes sized: "\<And>w b. length (gradient_of lib w b) = length w"
    and inv: "\<And>a. grad (opt r) = Some a \<Longrightarrow> length a = length (weights (opt r))"
    and "\<forall>e \<in> set es. loader e \<noteq> []"
  shows "\<exists>r'. train_epochs lib lr loader es r = Inr r'
           \<and> weights (opt r') = fold (sgd_update lib lr) (concat (map loader es)) (weights (opt r))
           \<and> calls r' = calls r @ concat (map (\<lambda>e. epoch_events (loader e)) es)"
  using inv assms(3)
proof (induction es arbitrary: r)
  case Nil
  then show ?case by simp
next
  case (Cons e es)
  have ne: "loader e \<noteq> []" using Cons.prems(2) by simp
  from train_epoch_effect [of lib r "loader e" lr, OF sized Cons.prems(1) ne]
  obtain r1 where ep: "train_epoch lib lr (loader e) r = Inr r1"
    and w1: "weights (opt r1) = fold (sgd_update lib lr) (loader e) (weights (opt r))"
    and i1: "\<forall>a. grad (opt r1) = Some a \<longrightarrow> length a = length (weights (opt r1))"
    and c1: "calls r1 = calls r @ epoch_events (loader e)"
    by blast
  have inv1: "\<And>a. grad (opt r1) = Some a \<Longrightarrow> length a = length (weights (opt r1))"
    using i1 by blast
  have rest: "\<forall>e \<in> set es. loader e \<noteq> []" using Cons.prems(2) by simp
  from Cons.IH [of r1, OF inv1 rest]
  obtain r' where run: "train_epochs lib lr loader es r1 = Inr r'"
    and w': "weights (opt r') = fold (sgd_update lib lr) (concat (map loader es)) (weights (opt r1))"
    and c': "calls r' = calls r1 @ concat (map (\<lambda>e. epoch_events (loader e)) es)"
    by blast
  have "train_epochs lib lr loader (e # es) r = Inr r'" using ep run by simp
  moreover have "weights (opt r') =
      fold (sgd_update lib lr) (concat (map loader (e # es))) (weights (opt r))"
    using w' w1 by simp
  moreover have "calls r' = calls r @ concat (map (\<lambda>e. epoch_events (loader e)) (e # es))"
    using c' c1 by simp
  ultimately show ?case by blast
qed

lemma mset_concat_chunks: "0 < n \<Longrightarrow> mset (concat (chunks n xs)) = mset xs"
  by (simp add: concat_chunks)

text \<open>
  Claim C7. Let every iteration over the loader reorder the training set (a permutation),
  let the training set be non-empty, and let gradients have the size of the weights (as
  has the gradient stored at the start, if there is one). Then the training loop returns.
  The library calls it has made are, epoch after epoch, for every mini-batch of the
  loader in order: clear the gradients, forward pass on the batch, loss of the batch,
  backward pass, optimizer step; each epoch ends with the print of the \<^verbatim>\<open>else\<close> branch. The
  weights at the end are those obtained by applying, for every mini-batch of every epoch
  in that order, the parameter update of that mini-batch alone. The mini-batches of one
  epoch together hold every sample of the training set exactly once: an epoch is one full
  pass over the data.
\<close>

theorem training_loop_order:
  assumes "\<forall>e. mset (shuffle e trainset) = mset trainset" and "trainset \<noteq> []"
    and "\<forall>w b. length (gradient_of lib w b) = length w"
    and "\<forall>a. grad s = Some a \<longrightarrow> length a = length (weights s)"
  shows "\<exists>r. train lib lr (trainloader shuffle trainset) epochs s = Inr r
         \<and> calls r = concat (map (\<lambda>e.
               concat (map (\<lambda>b. [ZeroGrad, Forward b, Criterion b, Backward, Step])
                         (trainloader shuffle trainset e)) @ [PrintLoss])
             [0..<nat epochs])
         \<and> weights (opt r) =
             fold (sgd_update lib lr)
               (concat (map (trainloader shuffle trainset) [0..<nat epochs])) (weights s)
         \<and> (\<forall>e. mset (concat (trainloader shuffle trainset e)) = mset trainset)"
proof -
  let ?r0 = "\<lparr>opt = s, calls = [], printed = []\<rparr> :: 'a list session"
  have ne: "shuffle e trainset \<noteq> []" for e
  proof
    assume "shuffle e trainset = []"
    then have "mset trainset = {#}" using assms(1) by (metis mset.simps(1))
    then show False using assms(2) by simp
  qed
  have batches: "\<forall>e \<in> set [0..<nat epochs]. trainloader shuffle trainset e \<noteq> []"
    using ne by (simp add: trainloader_def chunks_nonempty)
  have sized: "\<And>w b. length (gradient_of lib w b) = length w" using assms(3) by blast
  have inv: "\<And>a. grad (opt ?r0) = Some a \<Longrightarrow> length a = length (weights (opt ?r0))"
    using assms(4) by simp
  from train_epochs_effect [of lib ?r0 "[0..<nat epochs]" "trainloader shuffle trainset" lr,
      OF sized inv batches]
  obtain r where "train_epochs lib lr (trainloader shuffle trainset) [0..<nat epochs] ?r0 = Inr r"
    and "weights (opt r) = fold (sgd_update lib lr)
           (concat (map (trainloader shuffle trainset) [0..<nat epochs])) (weights (opt ?r0))"
    and "calls r = calls ?r0
        @ concat (map (\<lambda>e. epoch_events (trainloader shuffle trainset e)) [0..<nat epochs])"
    by blast
  then have "train lib lr (trainloader shuffle trainset) epochs s = Inr r"
    and "calls r = concat (map (\<lambda>e.
               concat (map (\<lambda>b. [ZeroGrad, Forward b, Criterion b, Backward, Step])
                         (trainloader shuffle trainset e)) @ [PrintLoss])
             [0..<nat epochs])"
    and "weights (opt r) = fold (sgd_update lib lr)
           (concat (map (trainloader shuffle trainset) [0..<nat epochs])) (weights s)"
    by (simp_all add: train_def epoch_events_def)
  moreover have "mset (concat (trainloader shuffle trainset e)) = mset trainset" for e
    using assms(1) by (simp add: trainloader_def mset_concat_chunks)
  ultimately show ?thesis by blast
qed

theorem training_loop_order_witness:
  "\<exists>r. train unit_lib (1/2) (trainloader (\<lambda>e. rev) [1, 2, 3]) 2 \<lparr>weights = [0], grad = None\<rparr> = Inr r
     \<and> calls r = [ZeroGrad, Forward [3, 2, 1], Criterion [3, 2, 1], Backward, Step, PrintLoss,
                  ZeroGrad, Forward [3, 2, 1], Criterion [3, 2, 1], Backward, Step, PrintLoss]
     \<and> weights (opt r) = [- 1]"
proof -
  have ch: "trainloader (\<lambda>e. rev) [1, 2, 3::nat] e = [[3, 2, 1]]" for e
    by (simp add: trainloader_def chunks.simps)
  have up: "[0..<nat 2] = [0, 1]" by (simp add: upt_rec)
  have sized: "\<forall>w b. length (gradient_of unit_lib w b) = length w"
    by (simp add: unit_lib_def)
  have upd: "sgd_update unit_lib (1/2) [3, 2, Suc 0] (sgd_update unit_lib (1/2) [3, 2, Suc 0] [0])
      = [- 1]"
    by (simp add: sgd_update_def unit_lib_def)
  show ?thesis
    using training_loop_order [where shuffle = "\<lambda>e. rev" and trainset = "[1, 2, 3::nat]"
        and lib = unit_lib and lr = "1/2" and epochs = 2 and s = "\<lparr>weights = [0], grad = None\<rparr>"]
      sized
    unfolding ch up by (simp add: upd)
qed

text \<open>
  Claim C4. Start from parameters whose gradient is not set or is zero, and let the
  gradients of three losses have the size \<open>n\<close> of the parameters. A backward pass alone
  leaves its own gradient; two backward passes without clearing leave the sum of the two
  gradients; \<^verbatim>\<open>zero_grad\<close> then resets the gradient to zero; and a backward pass after the
  reset leaves exactly the gradient of that pass. So the training step of the notebook,
  which clears the gradients before its forward and backward pass, ends with the gradient
  of its own batch, whatever gradient of that size was stored before.
\<close>

theorem gradients_accumulate_until_zero_grad:
  assumes "grad s = None \<or> grad s = Some (replicate n 0)"
    and "length (gradient l1) = n" and "length (gradient l2) = n" and "length (gradient l3) = n"
    and "\<forall>a. grad s' = Some a \<longrightarrow> length a = n"
    and "length (gradient_of lib (weights s') b) = n"
  shows "grad (backward l1 s) = Some (gradient l1)
       \<and> grad (backward l2 s) = Some (gradient l2)
       \<and> grad (backward l2 (backward l1 s)) = Some (map2 (+) (gradient l1) (gradient l2))
       \<and> grad (zero_grad (backward l2 (backward l1 s))) = Some (replicate n 0)
       \<and> grad (backward l3 (zero_grad (backward l2 (backward l1 s)))) = Some (gradient l3)
       \<and> grad (backward (forward_loss lib (zero_grad s') b) (zero_grad s'))
           = Some (gradient_of lib (weights s') b)"
proof -
  have alone: "grad (backward l s) = Some (gradient l)" if "length (gradient l) = n" for l
    using assms(1) that by (auto simp: backward_def map2_add_zeros)
  have two: "grad (backward l2 (backward l1 s)) = Some (map2 (+) (gradient l1) (gradient l2))"
    using alone [OF assms(2)] by (simp add: backward_def)
  have zero: "grad (zero_grad (backward l2 (backward l1 s))) = Some (replicate n 0)"
    using two assms(2,3) by (simp add: zero_grad_def map_zero_replicate)
  have "grad (backward l3 (zero_grad (backward l2 (backward l1 s))))
      = Some (map2 (+) (replicate n 0) (gradient l3))"
    using zero by (simp add: backward_def)
  then have after: "grad (backward l3 (zero_grad (backward l2 (backward l1 s)))) = Some (gradient l3)"
    using assms(4) by (simp add: map2_add_zeros)
  have step: "grad (backward (forward_loss lib (zero_grad s') b) (zero_grad s'))
           = Some (gradient_of lib (weights s') b)"
  proof (cases "grad s'")
    case None
    then show ?thesis by (simp add: backward_def zero_grad_def forward_loss_def)
  next
    case (Some a)
    then have "length a = n" using assms(5) by simp
    then show ?thesis using Some assms(6)
      by (simp add: backward_def zero_grad_def forward_loss_def map_zero_replicate map2_add_zeros)
  qed
  show ?thesis using alone [OF assms(2)] alone [OF assms(3)] two zero after step by simp
qed

theorem gradients_accumulate_until_zero_grad_witness:
  "grad (backward \<lparr>item = 1, gradient = [3, 4]\<rparr>
          (backward \<lparr>item = 1, gradient = [1, 2]\<rparr> \<lparr>weights = [0, 0], grad = None\<rparr>))
     = Some [4, 6]
   \<and> grad (backward \<lparr>item = 1, gradient = [5, 6]\<rparr> (zero_grad
          (backward \<lparr>item = 1, gradient = [3, 4]\<rparr>
            (backward \<lparr>item = 1, gradient = [1, 2]\<rparr> \<lparr>weights = [0, 0], grad = None\<rparr>))))
     = Some [5, 6]
   \<and> grad (backward (forward_loss unit_lib (zero_grad \<lparr>weights = [0, 0], grad = Some [7, 8]\<rparr>) [1])
          (zero_grad \<lparr>weights = [0, 0], grad = Some [7, 8]\<rparr>))
     = Some [1, 1]"
  using gradients_accumulate_until_zero_grad [where s = "\<lparr>weights = [0, 0], grad = None\<rparr>"
      and n = 2 and ?l1.0 = "\<lparr>item = 1, gradient = [1, 2]\<rparr>"
      and ?l2.0 = "\<lparr>item = 1, gradient = [3, 4]\<rparr>"
      and ?l3.0 = "\<lparr>item = 1, gradient = [5, 6]\<rparr>"
      and s' = "\<lparr>weights = [0, 0], grad = Some [7, 8]\<rparr>" and lib = unit_lib and b = "[1]"]
  by (simp add: unit_lib_def)

section \<open>Properties of saving and loading\<close>

lemma hidden_entries_Nil: "hidden_entries n [] = []"
  by (simp add: hidden_entries_def)

lemma hidden_entries_Cons:
  "hidden_entries n (l # ls) =
     (HiddenWeight n, weight l) # (HiddenBias n, bias l) # hidden_entries (Suc n) ls"
  by (simp add: hidden_entries_def)

lemma map_of_hidden_weight:
  "map_of (hidden_entries n ls @ rest) (HiddenWeight k) =
     (if n \<le> k \<and> k < n + length ls then Some (weight (ls ! (k - n)))
      else map_of rest (HiddenWeight k))"
proof (induction ls arbitrary: n)
  case Nil
  then show ?case by (auto simp: hidden_entries_Nil)
next
  case (Cons l ls)
  show ?case
  proof (cases "k = n")
    case True
    then show ?thesis by (simp add: hidden_entries_Cons)
  next
    case False
    then show ?thesis using Cons.IH [of "Suc n"]
      by (auto simp: hidden_entries_Cons Suc_diff_le simp del: map_of_append)
  qed
qed

lemma map_of_hidden_bias:
  "map_of (hidden_entries n ls @ rest) (HiddenBias k) =
     (if n \<le> k \<and> k < n + length ls then Some (bias (ls ! (k - n)))
      else map_of rest (HiddenBias k))"
proof (induction ls arbitrary: n)
  case Nil
  then show ?case by (auto simp: hidden_entries_Nil)
next
  case (Cons l ls)
  show ?case
  proof (cases "k = n")
    case True
    then show ?thesis by (simp add: hidden_entries_Cons)
  next
    case False
    then show ?thesis using Cons.IH [of "Suc n"]
      by (auto simp: hidden_entries_Cons Suc_diff_le simp del: map_of_append)
  qed
qed

lemma map_of_hidden_output:
  "map_of (hidden_entries n ls @ rest) OutputWeight = map_of rest OutputWeight"
  "map_of (hidden_entries n ls @ rest) OutputBias = map_of rest OutputBias"
  by (induction ls arbitrary: n) (simp_all add: hidden_entries_Nil hidden_entries_Cons del: map_of_append)

lemma state_dict_lookup:
  "map_of (state_dict m) (HiddenWeight k) =
     (if k < length (hidden_layers m) then Some (weight (hidden_layers m ! k)) else None)"
  "map_of (state_dict m) (HiddenBias k) =
     (if k < length (hidden_layers m) then Some (bias (hidden_layers m ! k)) else None)"
  "map_of (state_dict m) OutputWeight = Some (weight (output_layer m))"
  "map_of (state_dict m) OutputBias = Some (bias (output_layer m))"
  unfolding state_dict_def map_of_hidden_weight map_of_hidden_bias map_of_hidden_output
  by simp_all

lemma copy_tensor_same_shape: "shape q = shape p \<Longrightarrow> copy_tensor p q = q"
  by (simp add: copy_tensor_def)

lemma load_params_layers:
  "length (hidden_layers (load_params m sd)) = length (hidden_layers m)"
  "k < length (hidden_layers m) \<Longrightarrow>
     hidden_layers (load_params m sd) ! k =
       load_linear sd (HiddenWeight k) (HiddenBias k) (hidden_layers m ! k)"
  "output_layer (load_params m sd) = load_linear sd OutputWeight OutputBias (output_layer m)"
  by (simp_all add: load_params_def nth_enumerate_eq)

lemma load_tensor_agree:
  assumes "dom (map_of sd) = dom (map_of own)" and "map_of own k = Some p"
    and "\<And>q. map_of sd k = Some q \<Longrightarrow> shape q = shape p"
  shows "Some (load_tensor sd k p) = map_of sd k"
proof -
  have "k \<in> dom (map_of sd)" using assms(1,2) by auto
  then obtain q where q: "map_of sd k = Some q" by auto
  then have "shape q = shape p" by (rule assms(3))
  then show ?thesis using q by (simp add: load_tensor_def copy_tensor_same_shape)
qed

lemma state_dict_load_params:
  assumes dom: "dom (map_of sd) = dom (map_of (state_dict m))"
    and shapes: "\<And>k p q. (k, p) \<in> set (state_dict m) \<Longrightarrow> map_of sd k = Some q
                   \<Longrightarrow> shape q = shape p"
  shows "map_of (state_dict (load_params m sd)) k = map_of sd k"
proof (cases k)
  case (HiddenWeight j)
  show ?thesis
  proof (cases "j < length (hidden_layers m)")
    case True
    then have own: "map_of (state_dict m) (HiddenWeight j) = Some (weight (hidden_layers m ! j))"
      by (simp add: state_dict_lookup)
    have "Some (load_tensor sd (HiddenWeight j) (weight (hidden_layers m ! j)))
        = map_of sd (HiddenWeight j)"
      using dom own shapes [OF map_of_SomeD [OF own]] by (rule load_tensor_agree)
    then show ?thesis using True HiddenWeight
      by (simp add: state_dict_lookup load_params_layers load_linear_def)
  next
    case False
    then have "map_of (state_dict m) (HiddenWeight j) = None" by (simp add: state_dict_lookup)
    then have "map_of sd (HiddenWeight j) = None" using dom by (metis domIff)
    then show ?thesis using False HiddenWeight
      by (simp add: state_dict_lookup load_params_layers)
  qed
next
  case (HiddenBias j)
  show ?thesis
  proof (cases "j < length (hidden_layers m)")
    case True
    then have own: "map_of (state_dict m) (HiddenBias j) = Some (bias (hidden_layers m ! j))"
      by (simp add: state_dict_lookup)
    have "Some (load_tensor sd (HiddenBias j) (bias (hidden_layers m ! j)))
        = map_of sd (HiddenBias j)"
      using dom own shapes [OF map_of_SomeD [OF own]] by (rule load_tensor_agree)
    then show ?thesis using True HiddenBias
      by (simp add: state_dict_lookup load_params_layers load_linear_def)
  next
    case False
    then have "map_of (state_dict m) (HiddenBias j) = None" by (simp add: state_dict_lookup)
    then have "map_of sd (HiddenBias j) = None" using dom by (metis domIff)
    then show ?thesis using False HiddenBias
      by (simp add: state_dict_lookup load_params_layers)
  qed
next
  case OutputWeight
  have own: "map_of (state_dict m) OutputWeight = Some (weight (output_layer m))"
    by (simp add: state_dict_lookup)
  have "Some (load_tensor sd OutputWeight (weight (output_layer m))) = map_of sd OutputWeight"
    using dom own shapes [OF map_of_SomeD [OF own]] by (rule load_tensor_agree)
  then show ?thesis using OutputWeight
    by (simp add: state_dict_lookup load_params_layers load_linear_def)
next
  case OutputBias
  have own: "map_of (state_dict m) OutputBias = Some (bias (output_layer m))"
    by (simp add: state_dict_lookup)
  have "Some (load_tensor sd OutputBias (bias (output_layer m))) = map_of sd OutputBias"
    using dom own shapes [OF map_of_SomeD [OF own]] by (rule load_tensor_agree)
  then show ?thesis using OutputBias
    by (simp add: state_dict_lookup load_params_layers load_linear_def)
qed

lemma load_state_dict_mismatch:
  assumes "(k, p) \<in> set (state_dict m)" "map_of sd k = Some q" "shape q \<noteq> shape p"
  shows "\<exists>ks missing unexpected.
           load_state_dict m sd = Inl (RuntimeError ks missing unexpected) \<and> k \<in> set ks"
proof -
  define mis where "mis = filter (\<lambda>(k, p). case map_of sd k of None \<Rightarrow> False
                                   | Some q \<Rightarrow> shape q \<noteq> shape p) (state_dict m)"
  have "(k, p) \<in> set mis" using assms by (simp add: mis_def)
  then have in_ks: "k \<in> set (map fst mis)" by force
  then have "mis \<noteq> []" by auto
  then have "load_state_dict m sd =
      Inl (RuntimeError (map fst mis) (filter (\<lambda>k. map_of sd k = None) (map fst (state_dict m)))
             (filter (\<lambda>k. map_of (state_dict m) k = None) (map fst sd)))"
    by (simp add: load_state_dict_def Let_def mis_def)
  then show ?thesis using in_ks by blast
qed

lemma load_state_dict_match:
  assumes dom: "dom (map_of sd) = dom (map_of (state_dict m))"
    and shapes: "\<And>k p q. (k, p) \<in> set (state_dict m) \<Longrightarrow> map_of sd k = Some q
                   \<Longrightarrow> shape q = shape p"
  shows "load_state_dict m sd = Inr (load_params m sd)"
proof -
  let ?own = "state_dict m"
  have "\<not> (case map_of sd k of None \<Rightarrow> False | Some q \<Rightarrow> shape q \<noteq> shape p)"
    if "(k, p) \<in> set ?own" for k p
    using shapes [OF that] by (cases "map_of sd k") simp_all
  then have mis: "filter (\<lambda>(k, p). case map_of sd k of None \<Rightarrow> False
                                   | Some q \<Rightarrow> shape q \<noteq> shape p) ?own = []"
    by (auto simp: filter_empty_conv)
  have "map_of sd k \<noteq> None" if "k \<in> set (map fst ?own)" for k
  proof -
    have "k \<in> dom (map_of ?own)" using that by (simp add: dom_map_of_conv_image_fst)
    then have "k \<in> dom (map_of sd)" using dom by simp
    then show ?thesis by (simp only: domIff not_False_eq_True)
  qed
  then have missing: "filter (\<lambda>k. map_of sd k = None) (map fst ?own) = []"
    by (simp add: filter_empty_conv)
  have "map_of ?own k \<noteq> None" if "k \<in> set (map fst sd)" for k
  proof -
    have "k \<in> dom (map_of sd)" using that by (simp add: dom_map_of_conv_image_fst)
    then have "k \<in> dom (map_of ?own)" using dom by simp
    then show ?thesis by (simp only: domIff not_False_eq_True)
  qed
  then have unexpected: "filter (\<lambda>k. map_of ?own k = None) (map fst sd) = []"
    by (simp add: filter_empty_conv)
  show ?thesis
    by (simp add: load_state_dict_def Let_def mis missing unexpected)
qed

lemma has_architecture_layers:
  assumes "has_architecture m i out hidden"
  shows "length (hidden_layers m) = length hidden"
    and "k < length hidden \<Longrightarrow> layer_ok (hidden_layers m ! k) ((i # hidden) ! k) (hidden ! k)"
    and "layer_ok (output_layer m) (last hidden) out"
    and "hidden \<noteq> []"
proof -
  from assms have all2: "list_all2 (\<lambda>l (a, b). layer_ok l a b) (hidden_layers m) (zip (i # hidden) hidden)"
    by (simp add: has_architecture_def)
  then have "length (hidden_layers m) = length (zip (i # hidden) hidden)"
    by (rule list_all2_lengthD)
  then show len: "length (hidden_layers m) = length hidden" by simp
  show "layer_ok (hidden_layers m ! k) ((i # hidden) ! k) (hidden ! k)" if "k < length hidden"
  proof -
    have "k < length (hidden_layers m)" using that len by simp
    with all2 have "(\<lambda>l (a, b). layer_ok l a b) (hidden_layers m ! k) (zip (i # hidden) hidden ! k)"
      by (rule list_all2_nthD)
    then show ?thesis using that by simp
  qed
  show "layer_ok (output_layer m) (last hidden) out" "hidden \<noteq> []"
    using assms by (simp_all add: has_architecture_def)
qed

lemma Network_has_architecture:
  assumes "hidden \<noteq> []"
  shows "\<exists>m. Network rnd i out hidden = Inr m \<and> has_architecture m i out hidden"
proof -
  from assms obtain h hs where hidden: "hidden = h # hs" by (cases hidden) auto
  let ?m = "\<lparr>hidden_layers = map (\<lambda>(a, b). Linear rnd a b) (zip (i # hidden) hidden),
             output_layer = Linear rnd (last hidden) out\<rparr>"
  have net: "Network rnd i out hidden = Inr ?m"
    by (simp add: Network_def hidden)
  have "layer_ok (Linear rnd a b) a b" for a b
    by (simp add: layer_ok_def Linear_def)
  then have "list_all2 (\<lambda>l (a, b). layer_ok l a b)
      (map (\<lambda>(a, b). Linear rnd a b) (zip (i # hidden) hidden)) (zip (i # hidden) hidden)"
    by (auto simp: list_all2_map1 intro!: list_all2_same [THEN iffD2])
  then have "has_architecture ?m i out hidden"
    using assms \<open>\<And>a b. layer_ok (Linear rnd a b) a b\<close> by (simp add: has_architecture_def)
  then show ?thesis using net by blast
qed

lemma network_eqI:
  assumes "has_architecture m i out hidden" "has_architecture m' i out hidden"
    and "\<And>k. map_of (state_dict m') k = map_of (state_dict m) k"
  shows "m' = m"
proof -
  note a = has_architecture_layers [OF assms(1)] and a' = has_architecture_layers [OF assms(2)]
  have lin: "l' = l" if "layer_ok l x y" "layer_ok l' x y" "weight l' = weight l" "bias l' = bias l"
    for l l' :: linear and x y
    using that by (simp add: layer_ok_def)
  have "hidden_layers m' = hidden_layers m"
  proof (rule nth_equalityI)
    show "length (hidden_layers m') = length (hidden_layers m)" using a(1) a'(1) by simp
  next
    fix k assume "k < length (hidden_layers m')"
    then have k: "k < length hidden" "k < length (hidden_layers m)" "k < length (hidden_layers m')"
      using a(1) a'(1) by simp_all
    have "weight (hidden_layers m' ! k) = weight (hidden_layers m ! k)"
      using assms(3) [of "HiddenWeight k"] k by (simp add: state_dict_lookup)
    moreover have "bias (hidden_layers m' ! k) = bias (hidden_layers m ! k)"
      using assms(3) [of "HiddenBias k"] k by (simp add: state_dict_lookup)
    ultimately show "hidden_layers m' ! k = hidden_layers m ! k"
      using a(2) [OF k(1)] a'(2) [OF k(1)] by (intro lin)
  qed
  moreover have "output_layer m' = output_layer m"
  proof -
    have "weight (output_layer m') = weight (output_layer m)"
      using assms(3) [of OutputWeight] by (simp add: state_dict_lookup)
    moreover have "bias (output_layer m') = bias (output_layer m)"
      using assms(3) [of OutputBias] by (simp add: state_dict_lookup)
    ultimately show ?thesis using a(3) a'(3) by (intro lin)
  qed
  ultimately show ?thesis by simp
qed

lemma hidden_entries_member:
  assumes "(k, p) \<in> set (hidden_entries n ls)"
  shows "\<exists>j. n \<le> j \<and> j < n + length ls
           \<and> ((k = HiddenWeight j \<and> p = weight (ls ! (j - n)))
              \<or> (k = HiddenBias j \<and> p = bias (ls ! (j - n))))"
  using assms
proof (induction ls arbitrary: n)
  case Nil
  then show ?case by (simp add: hidden_entries_Nil)
next
  case (Cons l ls)
  from Cons.prems consider "k = HiddenWeight n \<and> p = weight l" | "k = HiddenBias n \<and> p = bias l"
    | "(k, p) \<in> set (hidden_entries (Suc n) ls)"
    by (auto simp: hidden_entries_Cons)
  then show ?case
  proof cases
    case 1
    then show ?thesis by (intro exI [of _ n]) simp
  next
    case 2
    then show ?thesis by (intro exI [of _ n]) simp
  next
    case 3
    from Cons.IH [OF 3] obtain j where j: "Suc n \<le> j" "j < Suc n + length ls"
      "(k = HiddenWeight j \<and> p = weight (ls ! (j - Suc n)))
       \<or> (k = HiddenBias j \<and> p = bias (ls ! (j - Suc n)))"
      by blast
    have "(l # ls) ! (j - n) = ls ! (j - Suc n)" using j(1) by (simp add: Suc_diff_le)
    then show ?thesis using j by (intro exI [of _ j]) auto
  qed
qed

lemma state_dict_member:
  assumes "(k, p) \<in> set (state_dict m)"
  shows "map_of (state_dict m) k = Some p"
proof -
  from assms consider "(k, p) \<in> set (hidden_entries 0 (hidden_layers m))"
    | "k = OutputWeight \<and> p = weight (output_layer m)"
    | "k = OutputBias \<and> p = bias (output_layer m)"
    by (auto simp: state_dict_def)
  then show ?thesis
  proof cases
    case 1
    from hidden_entries_member [OF 1] show ?thesis
      by (auto simp: state_dict_lookup)
  next
    case 2
    then show ?thesis by (simp add: state_dict_lookup)
  next
    case 3
    then show ?thesis by (simp add: state_dict_lookup)
  qed
qed

lemma dom_state_dict:
  assumes "length (hidden_layers m) = length (hidden_layers m')"
  shows "dom (map_of (state_dict m)) = dom (map_of (state_dict m'))"
proof -
  have "(map_of (state_dict m) k = None) = (map_of (state_dict m') k = None)" for k
    using assms by (cases k) (simp_all add: state_dict_lookup)
  then show ?thesis by (auto simp: dom_def)
qed

lemma load_params_architecture:
  assumes "has_architecture m i out hidden"
  shows "has_architecture (load_params m sd) i out hidden"
proof -
  note a = has_architecture_layers [OF assms]
  have keep: "layer_ok (load_linear sd kw kb l) x y" if "layer_ok l x y" for kw kb l x y
    using that
    by (simp add: layer_ok_def load_linear_def load_tensor_def copy_tensor_def split: option.splits)
  have "list_all2 (\<lambda>l (a, b). layer_ok l a b) (hidden_layers (load_params m sd))
          (zip (i # hidden) hidden)"
  proof (rule list_all2_all_nthI)
    show "length (hidden_layers (load_params m sd)) = length (zip (i # hidden) hidden)"
      using a(1) by (simp add: load_params_layers)
  next
    fix k assume "k < length (hidden_layers (load_params m sd))"
    then have k: "k < length hidden" "k < length (hidden_layers m)"
      using a(1) by (simp_all add: load_params_layers)
    have "layer_ok (hidden_layers (load_params m sd) ! k) ((i # hidden) ! k) (hidden ! k)"
      using a(2) [OF k(1)] k(2) by (simp add: load_params_layers keep)
    then show "(\<lambda>l (a, b). layer_ok l a b) (hidden_layers (load_params m sd) ! k)
          (zip (i # hidden) hidden ! k)"
      using k(1) by simp
  qed
  moreover have "layer_ok (output_layer (load_params m sd)) (last hidden) out"
    using a(3) by (simp add: load_params_layers keep)
  ultimately show ?thesis using a(4) by (simp add: has_architecture_def)
qed

lemma has_architecture_widths:
  assumes "has_architecture m i out hidden"
  shows "map out_features (hidden_layers m) = hidden"
proof (rule nth_equalityI)
  note a = has_architecture_layers [OF assms]
  show "length (map out_features (hidden_layers m)) = length hidden" using a(1) by simp
  fix k assume "k < length (map out_features (hidden_layers m))"
  then have k: "k < length hidden" "k < length (hidden_layers m)" using a(1) by simp_all
  then show "map out_features (hidden_layers m) ! k = hidden ! k"
    using a(2) [OF k(1)] by (simp add: layer_ok_def)
qed

lemma state_dict_shape:
  assumes "has_architecture m i out hidden" "has_architecture m' i out hidden"
    and "(k, p) \<in> set (state_dict m)" "map_of (state_dict m') k = Some q"
  shows "shape q = shape p"
proof -
  note a = has_architecture_layers [OF assms(1)] and a' = has_architecture_layers [OF assms(2)]
  have p: "map_of (state_dict m) k = Some p" using assms(3) by (rule state_dict_member)
  show ?thesis
  proof (cases k)
    case (HiddenWeight j)
    then have j: "j < length hidden" using p a(1) by (simp add: state_dict_lookup split: if_splits)
    then show ?thesis using p assms(4) HiddenWeight a(1) a'(1) a(2) [OF j] a'(2) [OF j]
      by (simp add: state_dict_lookup layer_ok_def)
  next
    case (HiddenBias j)
    then have j: "j < length hidden" using p a(1) by (simp add: state_dict_lookup split: if_splits)
    then show ?thesis using p assms(4) HiddenBias a(1) a'(1) a(2) [OF j] a'(2) [OF j]
      by (simp add: state_dict_lookup layer_ok_def)
  next
    case OutputWeight
    then show ?thesis using p assms(4) a(3) a'(3) by (simp add: state_dict_lookup layer_ok_def)
  next
    case OutputBias
    then show ?thesis using p assms(4) a(3) a'(3) by (simp add: state_dict_lookup layer_ok_def)
  qed
qed

lemma load_state_dict_same_architecture:
  assumes "has_architecture m i out hidden" "has_architecture saved i out hidden"
  shows "load_state_dict m (state_dict saved) = Inr saved"
proof -
  note a = has_architecture_layers [OF assms(1)] and a' = has_architecture_layers [OF assms(2)]
  have dom: "dom (map_of (state_dict saved)) = dom (map_of (state_dict m))"
    using a(1) a'(1) by (intro dom_state_dict) simp
  have shapes: "shape q = shape p"
    if "(k, p) \<in> set (state_dict m)" "map_of (state_dict saved) k = Some q" for k p q
    using assms that by (rule state_dict_shape)
  have "load_state_dict m (state_dict saved) = Inr (load_params m (state_dict saved))"
    using dom shapes by (rule load_state_dict_match)
  moreover have "load_params m (state_dict saved) = saved"
  proof (rule network_eqI [OF assms(2)])
    show "has_architecture (load_params m (state_dict saved)) i out hidden"
      using assms(1) by (rule load_params_architecture)
    show "map_of (state_dict (load_params m (state_dict saved))) k = map_of (state_dict saved) k"
      for k using dom shapes by (rule state_dict_load_params)
  qed
  ultimately show ?thesis by simp
qed

text \<open>
  Claim C3. Let \<open>model\<close> be a network with 784 inputs, 10 outputs and the hidden widths
  \<open>hidden\<close> (at least one), with any parameter values. Saving the checkpoint of the
  notebook for \<open>model\<close> and calling load_checkpoint on that file returns \<open>model\<close> itself:
  the same layers with the same sizes and the same parameter values, whatever the initial
  values of the network that load_checkpoint builds. The checkpoint holds the input size,
  the output size and the hidden widths of the model.
\<close>

theorem checkpoint_round_trip:
  assumes "has_architecture model 784 10 hidden"
  shows "load_checkpoint rnd (torch_save (checkpoint model) path fs) path = Inr model
       \<and> input_size (checkpoint model) = 784 \<and> output_size (checkpoint model) = 10
       \<and> ck_hidden_layers (checkpoint model) = hidden"
proof -
  have widths: "ck_hidden_layers (checkpoint model) = hidden"
    using has_architecture_widths [OF assms] by (simp add: checkpoint_def)
  have "hidden \<noteq> []" using assms by (simp add: has_architecture_def)
  then obtain fresh where fresh: "Network rnd 784 10 hidden = Inr fresh"
    "has_architecture fresh 784 10 hidden"
    using Network_has_architecture by blast
  have "load_state_dict fresh (state_dict model) = Inr model"
    using fresh(2) assms by (rule load_state_dict_same_architecture)
  then have "load_checkpoint rnd (torch_save (checkpoint model) path fs) path = Inr model"
    using fresh(1) widths
    by (simp add: load_checkpoint_def torch_load_def torch_save_def checkpoint_def)
  then show ?thesis using widths by (simp add: checkpoint_def)
qed

theorem checkpoint_round_trip_witness:
  "load_checkpoint (\<lambda>_. 0) (torch_save (checkpoint example_model) ''checkpoint.pth'' Map.empty)
     ''checkpoint.pth'' = Inr example_model
   \<and> ck_hidden_layers (checkpoint example_model) = [2]"
proof -
  have "has_architecture example_model 784 10 [2]"
    by (simp add: has_architecture_def layer_ok_def example_model_def)
  from checkpoint_round_trip [OF this, of "\<lambda>_. 0" "''checkpoint.pth''" Map.empty]
  show ?thesis by simp
qed

text \<open>
  Claim C5. Loading a state dict into a model: when a parameter of the model has other
  dimensions in the state dict, the call fails with the error that lists this parameter
  among the mismatched ones; when the state dict names exactly the parameters of the model
  and every dimension agrees, the call succeeds and the parameters of the resulting model
  are those of the state dict; and load_checkpoint returns the error of load_state_dict
  as its own result, with nothing that catches it.
\<close>

theorem load_state_dict_shape_check:
  "((k, p) \<in> set (state_dict m) \<and> map_of sd k = Some q \<and> shape q \<noteq> shape p
      \<longrightarrow> (\<exists>ks missing unexpected.
             load_state_dict m sd = Inl (RuntimeError ks missing unexpected) \<and> k \<in> set ks))
   \<and> (dom (map_of sd) = dom (map_of (state_dict m))
        \<and> (\<forall>k p q. (k, p) \<in> set (state_dict m) \<and> map_of sd k = Some q \<longrightarrow> shape q = shape p)
      \<longrightarrow> (\<exists>m'. load_state_dict m sd = Inr m' \<and> map_of (state_dict m') = map_of sd))
   \<and> (torch_load fs path = Inr ck
        \<and> Network rnd (input_size ck) (output_size ck) (ck_hidden_layers ck) = Inr fresh
        \<and> load_state_dict fresh (ck_state_dict ck) = Inl e
      \<longrightarrow> load_checkpoint rnd fs path = Inl e)"
proof (intro conjI impI)
  assume "(k, p) \<in> set (state_dict m) \<and> map_of sd k = Some q \<and> shape q \<noteq> shape p"
  then have "(k, p) \<in> set (state_dict m)" "map_of sd k = Some q" "shape q \<noteq> shape p"
    by simp_all
  then show "\<exists>ks missing unexpected.
             load_state_dict m sd = Inl (RuntimeError ks missing unexpected) \<and> k \<in> set ks"
    by (rule load_state_dict_mismatch)
next
  assume h: "dom (map_of sd) = dom (map_of (state_dict m))
        \<and> (\<forall>k p q. (k, p) \<in> set (state_dict m) \<and> map_of sd k = Some q \<longrightarrow> shape q = shape p)"
  note dom = h [THEN conjunct1]
  have shapes: "shape q = shape p" if "(k, p) \<in> set (state_dict m)" "map_of sd k = Some q"
    for k p q using h [THEN conjunct2] that by blast
  have "load_state_dict m sd = Inr (load_params m sd)"
    using dom shapes by (rule load_state_dict_match)
  moreover have "map_of (state_dict (load_params m sd)) = map_of sd"
  proof (rule ext)
    fix k show "map_of (state_dict (load_params m sd)) k = map_of sd k"
      using dom shapes by (rule state_dict_load_params)
  qed
  ultimately show "\<exists>m'. load_state_dict m sd = Inr m' \<and> map_of (state_dict m') = map_of sd"
    by blast
next
  assume "torch_load fs path = Inr ck
        \<and> Network rnd (input_size ck) (output_size ck) (ck_hidden_layers ck) = Inr fresh
        \<and> load_state_dict fresh (ck_state_dict ck) = Inl e"
  then show "load_checkpoint rnd fs path = Inl e"
    by (simp add: load_checkpoint_def)
qed

lemma state_dict_small_net:
  "state_dict (small_net h v) =
     [(HiddenWeight 0, \<lparr>shape = [h, 3], data = replicate (h * 3) v\<rparr>),
      (HiddenBias 0, \<lparr>shape = [h], data = replicate h v\<rparr>),
      (OutputWeight, \<lparr>shape = [1, h], data = replicate h v\<rparr>),
      (OutputBias, \<lparr>shape = [1], data = [v]\<rparr>)]"
  by (simp add: state_dict_def small_net_def hidden_entries_def)

theorem load_state_dict_shape_check_witness:
  "(\<exists>ks missing unexpected.
      load_state_dict (small_net 2 0) (state_dict (small_net 4 1))
        = Inl (RuntimeError ks missing unexpected) \<and> HiddenWeight 0 \<in> set ks)
   \<and> (\<exists>m'. load_state_dict (small_net 2 0) (state_dict (small_net 2 1)) = Inr m'
          \<and> map_of (state_dict m') = map_of (state_dict (small_net 2 1)))"
proof -
  have "\<exists>ks missing unexpected.
      load_state_dict (small_net 2 0) (state_dict (small_net 4 1))
        = Inl (RuntimeError ks missing unexpected) \<and> HiddenWeight 0 \<in> set ks"
    using load_state_dict_shape_check [of "HiddenWeight 0" "\<lparr>shape = [2, 3], data = replicate (2 * 3) 0\<rparr>"
        "small_net 2 0" "state_dict (small_net 4 1)" "\<lparr>shape = [4, 3], data = replicate (4 * 3) 1\<rparr>"]
    by (simp add: state_dict_small_net)
  moreover have "\<exists>m'. load_state_dict (small_net 2 0) (state_dict (small_net 2 1)) = Inr m'
          \<and> map_of (state_dict m') = map_of (state_dict (small_net 2 1))"
  proof -
    have pre: "dom (map_of (state_dict (small_net 2 1))) = dom (map_of (state_dict (small_net 2 0)))
        \<and> (\<forall>k p q. (k, p) \<in> set (state_dict (small_net 2 0))
               \<and> map_of (state_dict (small_net 2 1)) k = Some q \<longrightarrow> shape q = shape p)"
      by (auto simp: state_dict_small_net)
    show ?thesis
      using load_state_dict_shape_check [of _ _ "small_net 2 0" "state_dict (small_net 2 1)"] pre
      by blast
  qed
  ultimately show ?thesis by blast
qed

lemma Linear_shapes:
  "shape (weight (Linear rnd a b)) = [b, a]" "shape (bias (Linear rnd a b)) = [b]"
  by (simp_all add: Linear_def)

lemma state_dict_three_hidden:
  "state_dict \<lparr>hidden_layers = [l0, l1, l2], output_layer = out\<rparr> =
     [(HiddenWeight 0, weight l0), (HiddenBias 0, bias l0),
      (HiddenWeight 1, weight l1), (HiddenBias 1, bias l1),
      (HiddenWeight 2, weight l2), (HiddenBias 2, bias l2),
      (OutputWeight, weight out), (OutputBias, bias out)]"
  by (simp add: state_dict_def hidden_entries_Cons hidden_entries_Nil)

text \<open>
  The model reproduces the failing load of the notebook: the state dict of the network
  with the hidden widths 512, 256, 128 loaded into a network with the widths 400, 200, 100
  raises the error that names the six hidden parameters and \<^verbatim>\<open>output.weight\<close>, and not
  \<^verbatim>\<open>output.bias\<close>, whose dimensions agree.
\<close>

lemma load_state_dict_recorded_run:
  assumes "Network rnd 784 10 [512, 256, 128] = Inr trained"
    and "Network rnd' 784 10 [400, 200, 100] = Inr model"
  shows "load_state_dict model (state_dict trained) =
     Inl (RuntimeError [HiddenWeight 0, HiddenBias 0, HiddenWeight 1, HiddenBias 1,
                        HiddenWeight 2, HiddenBias 2, OutputWeight] [] [])"
proof -
  have trained: "trained = \<lparr>hidden_layers = [Linear rnd 784 512, Linear rnd 512 256, Linear rnd 256 128],
                           output_layer = Linear rnd 128 10\<rparr>"
    using assms(1) by (simp add: Network_def)
  have model: "model = \<lparr>hidden_layers = [Linear rnd' 784 400, Linear rnd' 400 200, Linear rnd' 200 100],
                       output_layer = Linear rnd' 100 10\<rparr>"
    using assms(2) by (simp add: Network_def)
  show ?thesis
    unfolding trained model load_state_dict_def state_dict_three_hidden
    by (simp add: Linear_shapes)
qed

end
